theory Spec2Isabelle
  imports Main "HOL-Library.Sublist"
begin

section \<open>Common conventions\<close>

text \<open>
  A Date object is written as its time value: integer milliseconds since the epoch; a
  value further than 8.64e15 ms from the epoch stands for an invalid Date. A document
  field that may be absent is an \<open>option\<close>; Mongo ObjectIds are modelled by their string
  rendering, so \<open>_id.toString()\<close> is the identity. Ids, tokens and the other strings that
  the code only compares and copies are byte strings. The names and phone numbers, on
  which the handler calls \<open>trim\<close>, \<open>replace\<close> and a regular expression, are JavaScript
  strings proper: sequences of UTF-16 code units, each a number.
\<close>

type_synonym date = int

type_synonym jsString = "int list"

text \<open>A literal of the source as a JavaScript string.\<close>

definition js :: "string \<Rightarrow> jsString" where
  "js s = map of_char s"

text \<open>JavaScript truthiness of an optional string: present and non-empty.\<close>

definition truthy :: "'a list option \<Rightarrow> bool" where
  "truthy v = (case v of None \<Rightarrow> False | Some s \<Rightarrow> s \<noteq> [])"

text \<open>\<open>a || b\<close> on optional strings.\<close>

definition orElse :: "'a list option \<Rightarrow> 'a list option \<Rightarrow> 'a list option" where
  "orElse a b = (if truthy a then a else b)"

text \<open>\<open>TimeClip\<close>: the time value a Date is built from is kept only within 8.64e15 ms of
  the epoch; beyond it the Date is invalid (\<open>None\<close>).\<close>

definition timeClip :: "int \<Rightarrow> date option" where
  "timeClip t = (if \<bar>t\<bar> \<le> 8640000000000000 then Some t else None)"

text \<open>\<open>a || b\<close> on optional Date objects (a Date object is always truthy).\<close>

definition dateOrElse :: "date option \<Rightarrow> date option \<Rightarrow> date option" where
  "dateOrElse a b = (case a of Some t \<Rightarrow> Some t | None \<Rightarrow> b)"

section \<open>Location documents\<close>

text \<open>
  The documents of the \<open>locations\<close> collection, with the fields of the schema declared in
  routes/markDonation.js and the two fallback time fields read by the recency filter.
  The coordinates (floating point) are left out: they are only copied.
\<close>

record location =
  l_id :: string
  l_address :: "string option"
  l_userName :: "jsString option"
  l_mobileNumber :: "jsString option"
  l_donorId :: "string option"
  l_requestId :: "string option"
  l_token :: "string option"
  l_timestamp :: "date option"
  l_responseTime :: "date option"
  l_createdAt :: "date option"

section \<open>Recency filter (utils/locationFilter)\<close>

text \<open>\<open>new Date(location.timestamp || location.responseTime || location.createdAt)\<close>: the
  first of the three Date objects that is present (an object is truthy even when it is an
  invalid Date), copied; when all three are absent, \<open>new Date(undefined)\<close> is invalid.\<close>

definition locationTime :: "location \<Rightarrow> date option" where
  "locationTime location =
     (case dateOrElse (l_timestamp location)
             (dateOrElse (l_responseTime location) (l_createdAt location)) of
        None \<Rightarrow> None
      | Some t \<Rightarrow> timeClip t)"

text \<open>\<open>locationTime >= cutoffTime\<close>: a comparison with an invalid Date on either side is
  false.\<close>

definition isRecent :: "date option \<Rightarrow> location \<Rightarrow> bool" where
  "isRecent cutoffTime location =
     (case cutoffTime of
        None \<Rightarrow> False
      | Some c \<Rightarrow> (case locationTime location of None \<Rightarrow> False | Some t \<Rightarrow> c \<le> t))"

text \<open>
  \<open>now\<close> is the value of \<open>Date.now()\<close> at the call and \<open>maxAgeHours\<close> the optional
  argument, a whole number of hours (default 1); on whole hours the double arithmetic of
  the source is exact wherever the cutoff is a valid Date.
\<close>

definition filterRecentLocations :: "date \<Rightarrow> location list \<Rightarrow> int option \<Rightarrow> location list" where
  "filterRecentLocations now locations maxAgeHoursArg =
     (let maxAgeHours = (case maxAgeHoursArg of None \<Rightarrow> 1 | Some h \<Rightarrow> h);
          maxAgeMs = maxAgeHours * 60 * 60 * 1000;
          cutoffTime = timeClip (now - maxAgeMs)
      in filter (isRecent cutoffTime) locations)"

section \<open>Notification hub (services/notificationStream)\<close>

text \<open>
  \<open>clients\<close> is a JavaScript \<open>Map\<close> from hospital id to a \<open>Set\<close> of response streams; both
  iterate in insertion order, so they are an association list of lists. A connection is
  identified by a number. What \<open>res.write(payload)\<close> does is recorded as a pair of the
  connection and the notification serialised in the payload.
\<close>

type_synonym conn = nat

type_synonym clients = "(string \<times> conn list) list"

record notification =
  n_hospitalId :: "string option"
  n_title :: string
  n_message :: string

definition set_add :: "conn \<Rightarrow> conn list \<Rightarrow> conn list" where
  "set_add res s = (if res \<in> set s then s else s @ [res])"

definition addClient :: "string \<Rightarrow> conn \<Rightarrow> clients \<Rightarrow> clients" where
  "addClient hospitalId res clients =
     (let clients1 = (if map_of clients hospitalId = None then clients @ [(hospitalId, [])] else clients)
      in map (\<lambda>(hId, s). if hId = hospitalId then (hId, set_add res s) else (hId, s)) clients1)"

definition removeClient :: "string \<Rightarrow> conn \<Rightarrow> clients \<Rightarrow> clients" where
  "removeClient hospitalId res clients =
     (case map_of clients hospitalId of
        None \<Rightarrow> clients
      | Some s \<Rightarrow>
          (let s' = removeAll res s in
           if s' = [] then filter (\<lambda>(hId, _). hId \<noteq> hospitalId) clients
           else map (\<lambda>(hId, t). if hId = hospitalId then (hId, s') else (hId, t)) clients))"

definition broadcastNotification :: "notification \<Rightarrow> clients \<Rightarrow> (conn \<times> notification) list" where
  "broadcastNotification notification clients =
     (let hospitalId = n_hospitalId notification in
      if \<not> truthy hospitalId
      then concat (map (\<lambda>(hId, s). map (\<lambda>res. (res, notification)) s) clients)
      else (case map_of clients (the hospitalId) of
              None \<Rightarrow> []
            | Some s \<Rightarrow> if s = [] then [] else map (\<lambda>res. (res, notification)) s))"

section \<open>Documents of the fulfilment pipeline\<close>

text \<open>
  The Donor, BloodRequest and DonationHistory documents, with the fields that
  routes/markDonation.js reads and writes.
\<close>

record donor =
  d_id :: string
  d_uniqueId :: string
  d_name :: jsString
  d_phone :: jsString
  d_bloodGroup :: "string option"
  d_lastDonationDate :: "date option"

record bloodRequest =
  r_id :: string
  r_hospitalId :: string
  r_bloodGroup :: string
  r_quantity :: int
  r_confirmedUnits :: int
  r_urgency :: string
  r_status :: string
  r_requiredBy :: "date option"
  r_activeTokens :: "string list"
  r_createdAt :: date
  r_fulfilledAt :: "date option"
  r_batchInProgress :: bool

record donation =
  h_id :: string
  h_donorId :: string
  h_bloodRequestId :: string
  h_hospitalId :: string
  h_donorName :: jsString
  h_donorPhone :: jsString
  h_donorBloodGroup :: "string option"
  h_status :: string
  h_completedAt :: date
  h_address :: string
  h_notes :: string

text \<open>The process-wide \<open>processingLock\<close> set and the four collections.\<close>

record db =
  processingLock :: "string set"
  histories :: "donation list"
  locations :: "location list"
  donors :: "donor list"
  requests :: "bloodRequest list"

section \<open>The environment of one call\<close>

text \<open>
  Every awaited database operation of the handler can throw; \<open>site\<close> names them in
  source order and \<open>e_fails\<close> says which ones throw during the call. \<open>e_now\<close> is the clock
  (one instant for the whole call), the three ids are the ObjectIds generated during the
  call, and \<open>e_regExp\<close> is the JavaScript regular-expression engine with the \<open>i\<close> flag:
  \<open>None\<close> when the constructor rejects the pattern, else the match test.
\<close>

datatype site =
    HistoryFindOne | LocationFindOne | LocationDirectFindOne
  | DonorFindByUniqueId | DonorFindByPhone | DonorFindByName
  | RequestFindById | RequestFindOne | RequestCreate
  | HistoryCreate | DonorSave | DonorRefind | DonorRefindSave
  | RequestExpireSave | RequestFindOneAndUpdate | RequestFulfilSave
  | LocationRefind | LocationDeleteOne

record env =
  e_now :: date
  e_fails :: "site \<Rightarrow> bool"
  e_newHospitalId :: string
  e_newRequestId :: string
  e_newDonationId :: string
  e_regExp :: "jsString \<Rightarrow> (jsString \<Rightarrow> bool) option"

text \<open>
  The HTTP responses of POST /mark-donation: 400 "Donor ID required", 400 "Processing in
  progress", 400 "Already donated", 404 not found on live map, 400 "Blood request has
  expired.", 400 closed "Blood request already fulfilled or expired.", 500 "Database
  update failed", and the success body with the id, donor name, blood group and
  completion time of the donation. \<open>NoResponse\<close> is the outcome of the outer \<open>catch\<close>: its
  first statement after the log, \<open>processingLock.delete(donorId)\<close> (line 273), names a
  constant declared inside the \<open>try\<close> block (line 36) and so raises a ReferenceError; the
  handler ends there and the 500 of line 274 is never sent.
\<close>

datatype response =
    DonorIdRequired | AlreadyProcessing | AlreadyDonated | DonorNotFound
  | RequestExpired | ReservationConflict | DatabaseUpdateFailed | NoResponse
  | Success string jsString "string option" date

text \<open>
  A step of the handler either goes on with a value, sends a response (an early
  \<open>return res...\<close>), or throws into the outer \<open>catch\<close>; each carries the database.
\<close>

datatype 'a step = Next 'a db | Return response db | Throw db

definition andThen :: "'a step \<Rightarrow> ('a \<Rightarrow> db \<Rightarrow> 'b step) \<Rightarrow> 'b step" where
  "andThen m f = (case m of Next x s \<Rightarrow> f x s | Return r s \<Rightarrow> Return r s | Throw s \<Rightarrow> Throw s)"

section \<open>Query helpers\<close>

text \<open>\<open>updateOne\<close>: the first document matching the filter is changed.\<close>

fun update_first :: "('a \<Rightarrow> bool) \<Rightarrow> ('a \<Rightarrow> 'a) \<Rightarrow> 'a list \<Rightarrow> 'a list" where
  "update_first P f [] = []"
| "update_first P f (x # xs) = (if P x then f x # xs else x # update_first P f xs)"

text \<open>\<open>deleteOne\<close>: the first document matching the filter is removed.\<close>

fun remove_first :: "('a \<Rightarrow> bool) \<Rightarrow> 'a list \<Rightarrow> 'a list" where
  "remove_first P [] = []"
| "remove_first P (x # xs) = (if P x then xs else x # remove_first P xs)"

text \<open>\<open>findOne(...).sort({key: -1})\<close>: a document with the greatest key; among equal
  keys the one stored first (Mongo leaves the order of ties open).\<close>

fun latest_by :: "('a \<Rightarrow> int) \<Rightarrow> 'a list \<Rightarrow> 'a option" where
  "latest_by key [] = None"
| "latest_by key (x # xs) =
     (case latest_by key xs of
        None \<Rightarrow> Some x
      | Some y \<Rightarrow> if key x < key y then Some y else Some x)"

definition startsWith :: "string \<Rightarrow> string \<Rightarrow> bool" where
  "startsWith s p = (take (length p) s = p)"

text \<open>
  The code units matched by \<open>\s\<close> and removed by \<open>trim\<close>: the WhiteSpace and
  LineTerminator code points of ECMAScript, that is TAB, LF, VT, FF, CR, SPACE, U+00A0,
  U+1680, U+2000 to U+200A, U+2028, U+2029, U+202F, U+205F, U+3000 and U+FEFF.
\<close>

definition isSpace :: "int \<Rightarrow> bool" where
  "isSpace c = (c \<in> set [0x09, 0x0A, 0x0B, 0x0C, 0x0D, 0x20, 0xA0, 0x1680,
                            0x2000, 0x2001, 0x2002, 0x2003, 0x2004, 0x2005, 0x2006, 0x2007,
                            0x2008, 0x2009, 0x200A, 0x2028, 0x2029, 0x202F, 0x205F, 0x3000,
                            0xFEFF])"

text \<open>\<open>s.replace(/\s+/g, '')\<close>\<close>

definition removeSpaces :: "jsString \<Rightarrow> jsString" where
  "removeSpaces s = filter (\<lambda>c. \<not> isSpace c) s"

definition trim :: "jsString \<Rightarrow> jsString" where
  "trim s = rev (dropWhile isSpace (rev (dropWhile isSpace s)))"

text \<open>\<open>a || d\<close> where \<open>d\<close> is a non-empty literal.\<close>

definition orDefault :: "'a list option \<Rightarrow> 'a list \<Rightarrow> 'a list" where
  "orDefault a d = (case a of None \<Rightarrow> d | Some s \<Rightarrow> if s = [] then d else s)"

section \<open>POST /mark-donation (routes/markDonation.js)\<close>

text \<open>
  The handler is modelled step by step, in source order. The Location model is the one
  whose schema the file itself declares. Left out: console output and the coordinates.
  A request id that is not a well-formed ObjectId makes \<open>findById\<close> throw a cast error:
  that is a failure of the site \<open>RequestFindById\<close>. A stored history record always has
  its completion time.
\<close>

definition release :: "string \<Rightarrow> db \<Rightarrow> db" where
  "release donorId s = s\<lparr>processingLock := processingLock s - {donorId}\<rparr>"

definition acquire :: "string \<Rightarrow> db \<Rightarrow> db" where
  "acquire donorId s = s\<lparr>processingLock := insert donorId (processingLock s)\<rparr>"

text \<open>Lines 54-65: any completed donation of this donor id ends the call; the lock stays.\<close>

definition findExistingDonation :: "env \<Rightarrow> string \<Rightarrow> db \<Rightarrow> unit step" where
  "findExistingDonation e donorId s =
     (if e_fails e HistoryFindOne then Throw s
      else case latest_by h_completedAt
                  (filter (\<lambda>h. h_donorId h = donorId \<and> h_status h = ''completed'') (histories s)) of
             Some existingDonation \<Rightarrow> Return AlreadyDonated s
           | None \<Rightarrow> Next () s)"

text \<open>Lines 67-87: the Mongoose query, then the same query on the raw collection.\<close>

definition findLocation :: "env \<Rightarrow> string \<Rightarrow> db \<Rightarrow> location step" where
  "findLocation e donorId s =
     (if e_fails e LocationFindOne then Throw s
      else case find (\<lambda>l. l_donorId l = Some donorId) (locations s) of
             Some locationRecord \<Rightarrow> Next locationRecord s
           | None \<Rightarrow>
               (if e_fails e LocationDirectFindOne then Throw s
                else case find (\<lambda>l. l_donorId l = Some donorId) (locations s) of
                       Some locationRecord \<Rightarrow> Next locationRecord s
                     | None \<Rightarrow> Return DonorNotFound (release donorId s)))"

text \<open>Lines 95-115: by unique id, else by phone (as given or without white space), else
  by the name pattern.\<close>

definition findDonor :: "env \<Rightarrow> string \<Rightarrow> location \<Rightarrow> db \<Rightarrow> donor option step" where
  "findDonor e donorId locationRecord s =
     (if e_fails e DonorFindByUniqueId then Throw s
      else
        andThen
          (let donorRecord = find (\<lambda>d. d_uniqueId d = donorId) (donors s) in
           case l_mobileNumber locationRecord of
             Some mobileNumber \<Rightarrow>
               if donorRecord = None \<and> mobileNumber \<noteq> []
               then (if e_fails e DonorFindByPhone then Throw s
                     else Next (find (\<lambda>d. d_phone d = mobileNumber
                                         \<or> d_phone d = removeSpaces mobileNumber) (donors s)) s)
               else Next donorRecord s
           | None \<Rightarrow> Next donorRecord s)
          (\<lambda>donorRecord s.
             case l_userName locationRecord of
               Some userName \<Rightarrow>
                 if donorRecord = None \<and> userName \<noteq> []
                 then (if e_fails e DonorFindByName then Throw s
                       else case e_regExp e (js ''^'' @ trim userName @ js ''$'') of
                              None \<Rightarrow> Throw s
                            | Some matches \<Rightarrow> Next (find (\<lambda>d. matches (d_name d)) (donors s)) s)
                 else Next donorRecord s
             | None \<Rightarrow> Next donorRecord s))"

text \<open>\<open>donorRecord?.bloodGroup\<close>\<close>

definition donorBloodGroup :: "donor option \<Rightarrow> string option" where
  "donorBloodGroup donorRecord = (case donorRecord of None \<Rightarrow> None | Some d \<Rightarrow> d_bloodGroup d)"

text \<open>
  Lines 143-150, the document given to \<open>BloodRequest.create\<close>.
  Modelled from the spec: the BloodRequest schema (models/BloodRequest) is not among the
  sources, so the fields the call does not pass take the values a fresh request has in
  the spec's data model: the counter \<open>confirmedUnits\<close> starts at 0, \<open>activeTokens\<close> is
  empty, no fulfilment time, no batch in progress, and the creation time is the clock.
\<close>

definition newBloodRequest :: "env \<Rightarrow> donor option \<Rightarrow> bloodRequest" where
  "newBloodRequest e donorRecord =
     \<lparr> r_id = e_newRequestId e,
       r_hospitalId = e_newHospitalId e,
       r_bloodGroup = orDefault (donorBloodGroup donorRecord) ''O+'',
       r_quantity = 1,
       r_confirmedUnits = 0,
       r_urgency = ''medium'',
       r_status = ''active'',
       r_requiredBy = Some (e_now e + 24 * 60 * 60 * 1000),
       r_activeTokens = [],
       r_createdAt = e_now e,
       r_fulfilledAt = None,
       r_batchInProgress = False \<rparr>"

text \<open>Lines 119-152. An insert whose \<open>_id\<close> is already stored is rejected by the store.\<close>

definition resolveRequest ::
  "env \<Rightarrow> string option \<Rightarrow> location \<Rightarrow> donor option \<Rightarrow> db \<Rightarrow> bloodRequest step" where
  "resolveRequest e requestId locationRecord donorRecord s =
     (let actualRequestId = orElse requestId (l_requestId locationRecord) in
      andThen
        (case actualRequestId of
           Some rid \<Rightarrow>
             if rid \<noteq> []
             then (if e_fails e RequestFindById then Throw s
                   else Next (find (\<lambda>r. r_id r = rid) (requests s)) s)
             else Next None s
         | None \<Rightarrow> Next None s)
        (\<lambda>bloodRequest s.
           andThen
             (case donorBloodGroup donorRecord of
                Some bloodGroup \<Rightarrow>
                  if bloodRequest = None \<and> bloodGroup \<noteq> []
                  then (if e_fails e RequestFindOne then Throw s
                        else Next (latest_by r_createdAt
                                     (filter (\<lambda>r. r_bloodGroup r = bloodGroup \<and> r_status r = ''active'')
                                        (requests s))) s)
                  else Next bloodRequest s
              | None \<Rightarrow> Next bloodRequest s)
             (\<lambda>bloodRequest s.
                case bloodRequest of
                  Some r \<Rightarrow> Next r s
                | None \<Rightarrow>
                    if e_fails e RequestCreate \<or> e_newRequestId e \<in> r_id ` set (requests s)
                    then Throw s
                    else Next (newBloodRequest e donorRecord)
                           (s\<lparr>requests := requests s @ [newBloodRequest e donorRecord]\<rparr>))))"

text \<open>Lines 154-170.\<close>

definition createHistory ::
  "env \<Rightarrow> string \<Rightarrow> jsString option \<Rightarrow> location \<Rightarrow> donor option \<Rightarrow> bloodRequest \<Rightarrow> db \<Rightarrow> donation step" where
  "createHistory e donorId donorName locationRecord donorRecord bloodRequest s =
     (if e_fails e HistoryCreate \<or> e_newDonationId e \<in> h_id ` set (histories s) then Throw s
      else
        let donation =
          \<lparr> h_id = e_newDonationId e,
            h_donorId = (case donorRecord of Some d \<Rightarrow> d_id d | None \<Rightarrow> donorId),
            h_bloodRequestId = r_id bloodRequest,
            h_hospitalId = r_hospitalId bloodRequest,
            h_donorName = (case donorRecord of
                             Some d \<Rightarrow> d_name d
                           | None \<Rightarrow> orDefault (orElse (l_userName locationRecord) donorName) (js ''Unknown Donor'')),
            h_donorPhone = (case donorRecord of
                              Some d \<Rightarrow> d_phone d
                            | None \<Rightarrow> orDefault (l_mobileNumber locationRecord) (js ''0000000000'')),
            h_donorBloodGroup = (case donorRecord of Some d \<Rightarrow> d_bloodGroup d | None \<Rightarrow> Some ''Unknown''),
            h_status = ''completed'',
            h_completedAt = e_now e,
            h_address = orDefault (l_address locationRecord) ''Location Shared'',
            h_notes = ''Manual Entry: '' @ donorId \<rparr>
        in Next donation (s\<lparr>histories := histories s @ [donation]\<rparr>))"

text \<open>Lines 174-191: \<open>save\<close> writes the changed field to the stored document of that
  \<open>_id\<close>; the second branch swallows its errors.\<close>

definition setLastDonationDate :: "env \<Rightarrow> donor \<Rightarrow> db \<Rightarrow> db" where
  "setLastDonationDate e d s =
     s\<lparr>donors := update_first (\<lambda>x. d_id x = d_id d)
                   (\<lambda>x. x\<lparr>d_lastDonationDate := Some (e_now e)\<rparr>) (donors s)\<rparr>"

definition updateDonor :: "env \<Rightarrow> string \<Rightarrow> donor option \<Rightarrow> db \<Rightarrow> unit step" where
  "updateDonor e donorId donorRecord s =
     (case donorRecord of
        Some d \<Rightarrow>
          if e_fails e DonorSave then Throw s else Next () (setLastDonationDate e d s)
      | None \<Rightarrow>
          (if e_fails e DonorRefind then Next () s
           else case find (\<lambda>x. d_uniqueId x = donorId) (donors s) of
                  None \<Rightarrow> Next () s
                | Some d \<Rightarrow>
                    if e_fails e DonorRefindSave then Next () s
                    else Next () (setLastDonationDate e d s)))"

text \<open>Lines 206-213, the filter of \<open>findOneAndUpdate\<close>: the token condition is part of
  the filter only for a non-empty token that does not start with \<open>DIRECT_\<close>.\<close>

definition tokenFilter :: "string option \<Rightarrow> bloodRequest \<Rightarrow> bool" where
  "tokenFilter token r =
     (case token of
        None \<Rightarrow> True
      | Some t \<Rightarrow> if t \<noteq> [] \<and> \<not> startsWith t ''DIRECT_'' then t \<in> set (r_activeTokens r) else True)"

definition reservable :: "string \<Rightarrow> string option \<Rightarrow> bloodRequest \<Rightarrow> bool" where
  "reservable rid token r =
     (r_id r = rid \<and> r_status r = ''active'' \<and> r_confirmedUnits r < r_quantity r \<and> tokenFilter token r)"

definition incConfirmed :: "bloodRequest \<Rightarrow> bloodRequest" where
  "incConfirmed r = r\<lparr>r_confirmedUnits := r_confirmedUnits r + 1\<rparr>"

definition markFulfilled :: "env \<Rightarrow> bloodRequest \<Rightarrow> bloodRequest" where
  "markFulfilled e r =
     r\<lparr>r_status := ''fulfilled'', r_fulfilledAt := Some (e_now e), r_activeTokens := [],
       r_batchInProgress := False\<rparr>"

definition markExpired :: "bloodRequest \<Rightarrow> bloodRequest" where
  "markExpired r = r\<lparr>r_status := ''expired'', r_activeTokens := []\<rparr>"

text \<open>Line 196: \<open>status === 'active' && requiredBy && new Date() > requiredBy\<close>.\<close>

definition deadlinePassed :: "env \<Rightarrow> bloodRequest \<Rightarrow> bool" where
  "deadlinePassed e bloodRequest =
     (r_status bloodRequest = ''active''
      \<and> (case r_requiredBy bloodRequest of None \<Rightarrow> False | Some requiredBy \<Rightarrow> requiredBy < e_now e))"

text \<open>Lines 193-243, the inner \<open>try\<close>: every failure in it releases the lock and answers
  500 "Database update failed".\<close>

definition updateRequest :: "env \<Rightarrow> string \<Rightarrow> location \<Rightarrow> bloodRequest \<Rightarrow> db \<Rightarrow> unit step" where
  "updateRequest e donorId locationRecord bloodRequest s =
     (if deadlinePassed e bloodRequest
      then
        (if e_fails e RequestExpireSave then Return DatabaseUpdateFailed (release donorId s)
         else Return RequestExpired
                (release donorId
                   (s\<lparr>requests := update_first (\<lambda>r. r_id r = r_id bloodRequest) markExpired (requests s)\<rparr>)))
      else if e_fails e RequestFindOneAndUpdate then Return DatabaseUpdateFailed (release donorId s)
      else
        (let token = l_token locationRecord in
         case find (reservable (r_id bloodRequest) token) (requests s) of
           None \<Rightarrow> Return ReservationConflict (release donorId s)
         | Some r \<Rightarrow>
             (let updatedRequest = incConfirmed r;
                  s1 = s\<lparr>requests := update_first (reservable (r_id bloodRequest) token)
                                        incConfirmed (requests s)\<rparr>
              in if r_quantity updatedRequest \<le> r_confirmedUnits updatedRequest
                 then (if e_fails e RequestFulfilSave
                       then Return DatabaseUpdateFailed (release donorId s1)
                       else Next ()
                              (s1\<lparr>requests := update_first (\<lambda>x. r_id x = r_id updatedRequest)
                                                 (markFulfilled e) (requests s1)\<rparr>))
                 else Next () s1)))"

text \<open>Lines 245-254: errors are logged and ignored.\<close>

definition removeFromMap :: "env \<Rightarrow> string \<Rightarrow> db \<Rightarrow> db" where
  "removeFromMap e donorId s =
     (if e_fails e LocationRefind then s
      else case find (\<lambda>l. l_donorId l = Some donorId) (locations s) of
             None \<Rightarrow> s
           | Some locationRecord \<Rightarrow>
               if e_fails e LocationDeleteOne then s
               else s\<lparr>locations := remove_first (\<lambda>l. l_id l = l_id locationRecord) (locations s)\<rparr>)"

text \<open>Lines 40-152: the guard and the read-only resolution (the request may be created).\<close>

definition resolve ::
  "env \<Rightarrow> string \<Rightarrow> string option \<Rightarrow> db \<Rightarrow> (location \<times> donor option \<times> bloodRequest) step" where
  "resolve e donorId requestId s =
     (if donorId = [] then Return DonorIdRequired s
      else if donorId \<in> processingLock s then Return AlreadyProcessing s
      else
        andThen (findExistingDonation e donorId (acquire donorId s)) (\<lambda>_ s.
        andThen (findLocation e donorId s) (\<lambda>locationRecord s.
        andThen (findDonor e donorId locationRecord s) (\<lambda>donorRecord s.
        andThen (resolveRequest e requestId locationRecord donorRecord s) (\<lambda>bloodRequest s.
          Next (locationRecord, donorRecord, bloodRequest) s)))))"

text \<open>Lines 154-268: the writes.\<close>

definition commit ::
  "env \<Rightarrow> string \<Rightarrow> jsString option \<Rightarrow> location \<times> donor option \<times> bloodRequest \<Rightarrow> db \<Rightarrow> donation step" where
  "commit e donorId donorName resolved s =
     (case resolved of (locationRecord, donorRecord, bloodRequest) \<Rightarrow>
        andThen (createHistory e donorId donorName locationRecord donorRecord bloodRequest s) (\<lambda>donation s.
        andThen (updateDonor e donorId donorRecord s) (\<lambda>_ s.
        andThen (updateRequest e donorId locationRecord bloodRequest s) (\<lambda>_ s.
          Next donation (removeFromMap e donorId s)))))"

text \<open>
  The end of the handler: the success body, the response of an early return, or, for an
  exception that reaches the outer \<open>catch\<close> (lines 270-275), no response at all; the
  failed \<open>processingLock.delete\<close> leaves the lock as it is.
\<close>

definition respond :: "donation step \<Rightarrow> response \<times> db" where
  "respond outcome =
     (case outcome of
        Next donation s' \<Rightarrow>
          (Success (h_id donation) (h_donorName donation) (h_donorBloodGroup donation)
             (h_completedAt donation), s')
      | Return r s' \<Rightarrow> (r, s')
      | Throw s' \<Rightarrow> (NoResponse, s'))"

text \<open>The handler.\<close>

definition confirmDonation ::
  "env \<Rightarrow> string \<Rightarrow> jsString option \<Rightarrow> string option \<Rightarrow> db \<Rightarrow> response \<times> db" where
  "confirmDonation e donorId donorName requestId s =
     respond (andThen (resolve e donorId requestId s) (commit e donorId donorName))"

text \<open>The database a step ends with, whatever its outcome.\<close>

definition stateOf :: "'a step \<Rightarrow> db" where
  "stateOf m = (case m of Next x s \<Rightarrow> s | Return r s \<Rightarrow> s | Throw s \<Rightarrow> s)"

text \<open>
  The ways lines 193-238 change one stored request \<open>r\<close> into \<open>r'\<close> when the call has
  resolved the request \<open>b\<close> and the location \<open>l\<close> and request ids are unique: not at
  all, by the expiry save, by the increment alone, or by the increment followed by the
  fulfilment save.
\<close>

definition requestChange :: "env \<Rightarrow> location \<Rightarrow> bloodRequest \<Rightarrow> bloodRequest \<Rightarrow> bloodRequest \<Rightarrow> bool" where
  "requestChange e l b r r' =
     (r' = r
      \<or> (r = b \<and> deadlinePassed e b \<and> r' = markExpired r)
      \<or> (\<not> deadlinePassed e b \<and> reservable (r_id b) (l_token l) r \<and> r' = incConfirmed r
          \<and> (r_confirmedUnits r + 1 < r_quantity r \<or> e_fails e RequestFulfilSave))
      \<or> (\<not> deadlinePassed e b \<and> reservable (r_id b) (l_token l) r
          \<and> r_quantity r \<le> r_confirmedUnits r + 1 \<and> \<not> e_fails e RequestFulfilSave
          \<and> r' = markFulfilled e (incConfirmed r)))"

text \<open>A sequence of calls, one after the other.\<close>

record call =
  c_env :: env
  c_donorId :: string
  c_donorName :: "jsString option"
  c_requestId :: "string option"

fun run :: "call list \<Rightarrow> db \<Rightarrow> db" where
  "run [] s = s"
| "run (c # cs) s =
     run cs (snd (confirmDonation (c_env c) (c_donorId c) (c_donorName c) (c_requestId c) s))"

section \<open>Example documents\<close>

text \<open>ObjectIds are written as their 24 hexadecimal digits; donor ids and tokens are free
  strings.\<close>

definition loc0 :: location where
  "loc0 = \<lparr> l_id = ''64e000000000000000000000'', l_address = None, l_userName = None, l_mobileNumber = None,
            l_donorId = None, l_requestId = None, l_token = None, l_timestamp = None,
            l_responseTime = None, l_createdAt = None \<rparr>"

definition env0 :: env where
  "env0 = \<lparr> e_now = 10000000, e_fails = (\<lambda>_. False), e_newHospitalId = ''64b0000000000000000000ff'',
             e_newRequestId = ''64a0000000000000000000ff'', e_newDonationId = ''64c0000000000000000000ff'',
             e_regExp = (\<lambda>p. Some (\<lambda>s. js ''^'' @ s @ js ''$'' = p)) \<rparr>"

definition req1 :: bloodRequest where
  "req1 = \<lparr> r_id = ''64a000000000000000000001'', r_hospitalId = ''64b000000000000000000001'', r_bloodGroup = ''A+'', r_quantity = 1,
             r_confirmedUnits = 0, r_urgency = ''high'', r_status = ''active'',
             r_requiredBy = Some 20000000, r_activeTokens = [''T1''], r_createdAt = 5000000,
             r_fulfilledAt = None, r_batchInProgress = False \<rparr>"

definition locD1 :: location where
  "locD1 = loc0\<lparr> l_id := ''64e000000000000000000001'', l_userName := Some (js ''Asha''), l_donorId := Some ''D1'',
                 l_requestId := Some ''64a000000000000000000001'', l_token := Some ''T1'', l_timestamp := Some 9000000 \<rparr>"

definition donorAsha :: donor where
  "donorAsha = \<lparr> d_id = ''64d000000000000000000001'', d_uniqueId = ''D1'', d_name = js ''Asha'', d_phone = js ''9000000001'',
                  d_bloodGroup = Some ''A+'', d_lastDonationDate = None \<rparr>"

definition db0 :: db where
  "db0 = \<lparr> processingLock = {}, histories = [], locations = [locD1], donors = [],
            requests = [req1] \<rparr>"

definition hist1 :: donation where
  "hist1 = \<lparr> h_id = ''64c000000000000000000001'', h_donorId = ''D1'', h_bloodRequestId = ''64a000000000000000000000'', h_hospitalId = ''64b000000000000000000001'',
              h_donorName = js ''Asha'', h_donorPhone = js ''0000000000'', h_donorBloodGroup = Some ''Unknown'',
              h_status = ''completed'', h_completedAt = 1000000, h_address = ''Location Shared'',
              h_notes = ''Manual Entry: D1'' \<rparr>"

definition dbDonated :: db where
  "dbDonated = db0\<lparr> histories := [hist1] \<rparr>"

definition dbClosed :: db where
  "dbClosed = db0\<lparr> requests := [req1\<lparr> r_status := ''fulfilled'', r_confirmedUnits := 1,
                                         r_activeTokens := [] \<rparr>] \<rparr>"

definition dbStale :: db where
  "dbStale = db0\<lparr> locations := [locD1\<lparr> l_timestamp := Some 1000000 \<rparr>] \<rparr>"

definition dbClosedAsha :: db where
  "dbClosedAsha = dbClosed\<lparr> donors := [donorAsha] \<rparr>"

definition dbPast :: db where
  "dbPast = db0\<lparr> requests := [req1\<lparr> r_requiredBy := Some 9000000 \<rparr>] \<rparr>"

definition dbNoToken :: db where
  "dbNoToken = db0\<lparr> locations := [locD1\<lparr> l_token := None \<rparr>],
                        requests := [req1\<lparr> r_activeTokens := [] \<rparr>] \<rparr>"

definition call1 :: call where
  "call1 = \<lparr> c_env = env0, c_donorId = ''D1'', c_donorName = None, c_requestId = None \<rparr>"

definition call2 :: call where
  "call2 = \<lparr> c_env = env0\<lparr> e_newDonationId := ''64c0000000000000000000fe'' \<rparr>, c_donorId = ''D2'',
              c_donorName = None, c_requestId = Some ''64a000000000000000000001'' \<rparr>"

definition locD2 :: location where
  "locD2 = loc0\<lparr> l_id := ''64e000000000000000000002'', l_donorId := Some ''D2'', l_token := Some ''DIRECT_64a000000000000000000001_D2'',
                 l_timestamp := Some 9500000 \<rparr>"

definition envFulfilFails :: env where
  "envFulfilFails = env0\<lparr> e_fails := (\<lambda>x. x = RequestFulfilSave) \<rparr>"

definition envLookupFails :: env where
  "envLookupFails = env0\<lparr> e_fails := (\<lambda>x. x = DonorFindByUniqueId) \<rparr>"

definition dbTwo :: db where
  "dbTwo = db0\<lparr> locations := [locD1, locD2] \<rparr>"

section \<open>Facts about the query helpers\<close>

lemma update_first_all2:
  "list_all2 (\<lambda>x y. y = x \<or> (P x \<and> y = f x)) xs (update_first P f xs)"
  by (induction xs) (auto simp: list_all2_refl)

lemma update_first_unique:
  "distinct (map key xs) \<Longrightarrow> (\<And>x. P x \<Longrightarrow> key x = k) \<Longrightarrow>
   update_first P f xs = map (\<lambda>x. if P x then f x else x) xs"
proof (induction xs)
  case Nil
  then show ?case by simp
next
  case (Cons a xs)
  show ?case
  proof (cases "P a")
    case True
    then have ka: "key a = k" using Cons.prems(2) by simp
    have "\<forall>x \<in> set xs. \<not> P x"
    proof
      fix x assume x: "x \<in> set xs"
      show "\<not> P x"
      proof
        assume "P x"
        then have "key x = key a" using Cons.prems(2) ka by simp
        then show False using Cons.prems(1) x by (auto simp: image_iff)
      qed
    qed
    then have "map (\<lambda>x. if P x then f x else x) xs = xs"
      by (induction xs) auto
    with True show ?thesis by simp
  next
    case False
    then show ?thesis using Cons by simp
  qed
qed

lemma find_update_first:
  "(\<And>x. P x \<Longrightarrow> P (f x)) \<Longrightarrow> find P (update_first P f xs) = map_option f (find P xs)"
  by (induction xs) auto

lemma find_Some_mem: "find P xs = Some x \<Longrightarrow> x \<in> set xs \<and> P x"
  by (induction xs) (auto split: if_splits)

lemma find_None_iff2: "find P xs = None \<longleftrightarrow> (\<forall>x \<in> set xs. \<not> P x)"
  by (induction xs) auto

lemma latest_by_None: "latest_by key xs = None \<longleftrightarrow> xs = []"
  by (induction xs) (auto split: option.splits)

lemma latest_by_Some:
  "latest_by key xs = Some x \<Longrightarrow> x \<in> set xs \<and> (\<forall>y \<in> set xs. key y \<le> key x)"
proof (induction xs arbitrary: x)
  case Nil
  then show ?case by simp
next
  case (Cons a xs)
  show ?case
  proof (cases "latest_by key xs")
    case None
    then have "xs = []" by (simp add: latest_by_None)
    with Cons.prems None show ?thesis by simp
  next
    case (Some y)
    from Cons.IH[OF Some] have y: "y \<in> set xs" "\<forall>z \<in> set xs. key z \<le> key y" by auto
    show ?thesis
    proof (cases "key a < key y")
      case True
      with Cons.prems Some have "x = y" by simp
      with y True show ?thesis by auto
    next
      case False
      with Cons.prems Some have "x = a" by simp
      with y False show ?thesis by fastforce
    qed
  qed
qed

section \<open>The steps of the handler, one by one\<close>

lemma findExistingDonation_Next:
  "findExistingDonation e d s = Next x s' \<Longrightarrow>
     s' = s \<and> \<not> (\<exists>h \<in> set (histories s). h_donorId h = d \<and> h_status h = ''completed'')"
  by (auto simp: findExistingDonation_def latest_by_None filter_empty_conv
           split: if_splits option.splits)

lemma findExistingDonation_Return:
  "findExistingDonation e d s = Return r s' \<Longrightarrow>
     s' = s \<and> r = AlreadyDonated \<and> (\<exists>h \<in> set (histories s). h_donorId h = d \<and> h_status h = ''completed'')"
  by (auto simp: findExistingDonation_def split: if_splits option.splits dest!: latest_by_Some)

lemma findExistingDonation_Throw:
  "findExistingDonation e d s = Throw s' \<Longrightarrow> s' = s \<and> e_fails e HistoryFindOne"
  by (auto simp: findExistingDonation_def split: if_splits option.splits)

lemma findLocation_Next:
  "findLocation e d s = Next l s' \<Longrightarrow>
     s' = s \<and> find (\<lambda>l. l_donorId l = Some d) (locations s) = Some l"
  by (auto simp: findLocation_def split: if_splits option.splits)

lemma findLocation_Return:
  "findLocation e d s = Return r s' \<Longrightarrow>
     s' = release d s \<and> r = DonorNotFound \<and> find (\<lambda>l. l_donorId l = Some d) (locations s) = None"
  by (auto simp: findLocation_def split: if_splits option.splits)

lemma findLocation_Throw:
  "findLocation e d s = Throw s' \<Longrightarrow>
     s' = s \<and> (e_fails e LocationFindOne \<or> e_fails e LocationDirectFindOne)"
  by (auto simp: findLocation_def split: if_splits option.splits)

lemma findDonor_Next:
  "findDonor e d l s = Next dr s' \<Longrightarrow> s' = s \<and> (\<forall>x. dr = Some x \<longrightarrow> x \<in> set (donors s))"
  by (auto simp: findDonor_def andThen_def Let_def split: if_splits option.splits step.splits
           dest: find_Some_mem)

lemma findDonor_Return: "findDonor e d l s = Return r s' \<Longrightarrow> False"
  by (auto simp: findDonor_def andThen_def Let_def split: if_splits option.splits step.splits)

lemma findDonor_Throw: "findDonor e d l s = Throw s' \<Longrightarrow> s' = s"
  by (auto simp: findDonor_def andThen_def Let_def split: if_splits option.splits step.splits)

lemma newBloodRequest_simps:
  "r_id (newBloodRequest e dr) = e_newRequestId e"
  "r_quantity (newBloodRequest e dr) = 1"
  "r_confirmedUnits (newBloodRequest e dr) = 0"
  "r_status (newBloodRequest e dr) = ''active''"
  "r_activeTokens (newBloodRequest e dr) = []"
  "r_hospitalId (newBloodRequest e dr) = e_newHospitalId e"
  "r_requiredBy (newBloodRequest e dr) = Some (e_now e + 86400000)"
  by (simp_all add: newBloodRequest_def)

lemma resolveRequest_Next:
  "resolveRequest e rq l dr s = Next b s' \<Longrightarrow>
     (s' = s \<and> b \<in> set (requests s))
     \<or> (s' = s\<lparr>requests := requests s @ [b]\<rparr> \<and> b = newBloodRequest e dr
          \<and> r_id b \<notin> r_id ` set (requests s))"
  by (auto simp: resolveRequest_def andThen_def Let_def newBloodRequest_simps
           split: if_splits option.splits step.splits
           dest: find_Some_mem latest_by_Some)

lemma resolveRequest_Return: "resolveRequest e rq l dr s = Return r s' \<Longrightarrow> False"
  by (auto simp: resolveRequest_def andThen_def Let_def split: if_splits option.splits step.splits)

lemma resolveRequest_Throw: "resolveRequest e rq l dr s = Throw s' \<Longrightarrow> s' = s"
  by (auto simp: resolveRequest_def andThen_def Let_def split: if_splits option.splits step.splits)

lemma createHistory_Next:
  "createHistory e d dn l dr b s = Next h s' \<Longrightarrow>
     s' = s\<lparr>histories := histories s @ [h]\<rparr> \<and> h_status h = ''completed''
     \<and> h_donorId h = (case dr of Some x \<Rightarrow> d_id x | None \<Rightarrow> d)
     \<and> h_bloodRequestId h = r_id b \<and> h_id h = e_newDonationId e
     \<and> \<not> e_fails e HistoryCreate"
  by (auto simp: createHistory_def Let_def split: if_splits)

lemma createHistory_Return: "createHistory e d dn l dr b s = Return r s' \<Longrightarrow> False"
  by (auto simp: createHistory_def Let_def split: if_splits)

lemma createHistory_Throw:
  "createHistory e d dn l dr b s = Throw s' \<Longrightarrow>
     s' = s \<and> (e_fails e HistoryCreate \<or> e_newDonationId e \<in> h_id ` set (histories s))"
  by (auto simp: createHistory_def Let_def split: if_splits)

lemma updateDonor_Next:
  "updateDonor e d dr s = Next u s' \<Longrightarrow>
     processingLock s' = processingLock s \<and> histories s' = histories s
     \<and> locations s' = locations s \<and> requests s' = requests s
     \<and> (\<forall>x. dr = Some x \<longrightarrow> s' = setLastDonationDate e x s)"
  by (auto simp: updateDonor_def setLastDonationDate_def split: if_splits option.splits)

lemma updateDonor_Return: "updateDonor e d dr s = Return r s' \<Longrightarrow> False"
  by (auto simp: updateDonor_def split: if_splits option.splits)

lemma updateDonor_Throw:
  "updateDonor e d dr s = Throw s' \<Longrightarrow> s' = s \<and> dr \<noteq> None \<and> e_fails e DonorSave"
  by (auto simp: updateDonor_def split: if_splits option.splits)

subsection \<open>The request update, case by case\<close>

lemma incConfirmed_simps:
  "r_id (incConfirmed r) = r_id r"
  "r_quantity (incConfirmed r) = r_quantity r"
  "r_confirmedUnits (incConfirmed r) = r_confirmedUnits r + 1"
  "r_status (incConfirmed r) = r_status r"
  "r_activeTokens (incConfirmed r) = r_activeTokens r"
  "r_fulfilledAt (incConfirmed r) = r_fulfilledAt r"
  by (simp_all add: incConfirmed_def)

lemma markFulfilled_simps:
  "r_id (markFulfilled e r) = r_id r"
  "r_quantity (markFulfilled e r) = r_quantity r"
  "r_confirmedUnits (markFulfilled e r) = r_confirmedUnits r"
  "r_status (markFulfilled e r) = ''fulfilled''"
  "r_activeTokens (markFulfilled e r) = []"
  "r_fulfilledAt (markFulfilled e r) = Some (e_now e)"
  by (simp_all add: markFulfilled_def)

lemma markExpired_simps:
  "r_id (markExpired r) = r_id r"
  "r_quantity (markExpired r) = r_quantity r"
  "r_confirmedUnits (markExpired r) = r_confirmedUnits r"
  "r_status (markExpired r) = ''expired''"
  "r_activeTokens (markExpired r) = []"
  by (simp_all add: markExpired_def)

lemma reservable_id: "reservable k tok r \<Longrightarrow> r_id r = k"
  by (simp add: reservable_def)

lemma updateRequest_Throw: "updateRequest e d l b s = Throw s' \<Longrightarrow> False"
  by (auto simp: updateRequest_def Let_def split: if_splits option.splits)

lemma updateRequest_expired:
  "deadlinePassed e b \<Longrightarrow> \<not> e_fails e RequestExpireSave \<Longrightarrow>
   updateRequest e d l b s = Return RequestExpired
     (release d (s\<lparr>requests := update_first (\<lambda>r. r_id r = r_id b) markExpired (requests s)\<rparr>))"
  by (simp add: updateRequest_def)

lemma updateRequest_expire_failed:
  "deadlinePassed e b \<Longrightarrow> e_fails e RequestExpireSave \<Longrightarrow>
   updateRequest e d l b s = Return DatabaseUpdateFailed (release d s)"
  by (simp add: updateRequest_def)

lemma updateRequest_update_failed:
  "\<not> deadlinePassed e b \<Longrightarrow> e_fails e RequestFindOneAndUpdate \<Longrightarrow>
   updateRequest e d l b s = Return DatabaseUpdateFailed (release d s)"
  by (simp add: updateRequest_def)

lemma updateRequest_conflict:
  "\<not> deadlinePassed e b \<Longrightarrow> \<not> e_fails e RequestFindOneAndUpdate \<Longrightarrow>
   find (reservable (r_id b) (l_token l)) (requests s) = None \<Longrightarrow>
   updateRequest e d l b s = Return ReservationConflict (release d s)"
  by (simp add: updateRequest_def)

lemma updateRequest_reserved:
  "\<not> deadlinePassed e b \<Longrightarrow> \<not> e_fails e RequestFindOneAndUpdate \<Longrightarrow>
   find (reservable (r_id b) (l_token l)) (requests s) = Some r \<Longrightarrow>
   updateRequest e d l b s =
     (let s1 = s\<lparr>requests := update_first (reservable (r_id b) (l_token l)) incConfirmed (requests s)\<rparr>
      in if r_quantity r \<le> r_confirmedUnits r + 1
         then (if e_fails e RequestFulfilSave then Return DatabaseUpdateFailed (release d s1)
               else Next () (s1\<lparr>requests := update_first (\<lambda>x. r_id x = r_id b) (markFulfilled e) (requests s1)\<rparr>))
         else Next () s1)"
  by (auto simp: updateRequest_def Let_def incConfirmed_simps dest!: find_Some_mem reservable_id)

subsection \<open>The guard and the resolution\<close>

lemma acquire_simps:
  "processingLock (acquire d s) = insert d (processingLock s)"
  "histories (acquire d s) = histories s"
  "locations (acquire d s) = locations s"
  "donors (acquire d s) = donors s"
  "requests (acquire d s) = requests s"
  by (simp_all add: acquire_def)

lemma release_simps:
  "processingLock (release d s) = processingLock s - {d}"
  "histories (release d s) = histories s"
  "locations (release d s) = locations s"
  "donors (release d s) = donors s"
  "requests (release d s) = requests s"
  by (simp_all add: release_def)

lemma resolve_Next:
  assumes "resolve e d rq s = Next (l, dr, b) s'"
  shows "d \<noteq> [] \<and> d \<notin> processingLock s
     \<and> \<not> (\<exists>h \<in> set (histories s). h_donorId h = d \<and> h_status h = ''completed'')
     \<and> find (\<lambda>l. l_donorId l = Some d) (locations s) = Some l
     \<and> (\<forall>x. dr = Some x \<longrightarrow> x \<in> set (donors s))
     \<and> resolveRequest e rq l dr (acquire d s) = Next b s'
     \<and> ((s' = acquire d s \<and> b \<in> set (requests s))
        \<or> (s' = (acquire d s)\<lparr>requests := requests s @ [b]\<rparr> \<and> b = newBloodRequest e dr
            \<and> r_id b \<notin> r_id ` set (requests s)))"
  using assms
  by (auto simp: resolve_def andThen_def acquire_simps split: if_splits step.splits
        dest!: findExistingDonation_Next findLocation_Next findDonor_Next
        dest: resolveRequest_Next)

lemma resolve_Return:
  assumes "resolve e d rq s = Return r s'"
  shows "(r = DonorIdRequired \<and> d = [] \<and> s' = s)
     \<or> (r = AlreadyProcessing \<and> d \<noteq> [] \<and> d \<in> processingLock s \<and> s' = s)
     \<or> (r = AlreadyDonated \<and> d \<noteq> [] \<and> d \<notin> processingLock s \<and> s' = acquire d s
          \<and> (\<exists>h \<in> set (histories s). h_donorId h = d \<and> h_status h = ''completed''))
     \<or> (r = DonorNotFound \<and> d \<noteq> [] \<and> d \<notin> processingLock s \<and> s' = release d (acquire d s)
          \<and> \<not> (\<exists>h \<in> set (histories s). h_donorId h = d \<and> h_status h = ''completed'')
          \<and> find (\<lambda>l. l_donorId l = Some d) (locations s) = None)"
  using assms
  by (auto simp: resolve_def andThen_def acquire_simps split: if_splits step.splits
        dest!: findExistingDonation_Next findExistingDonation_Return findLocation_Next findLocation_Return
          findDonor_Next findDonor_Return resolveRequest_Return)

lemma resolve_Throw:
  assumes "resolve e d rq s = Throw s'"
  shows "d \<noteq> [] \<and> d \<notin> processingLock s \<and> s' = acquire d s"
  using assms
  by (auto simp: resolve_def andThen_def split: if_splits step.splits
        dest!: findExistingDonation_Next findExistingDonation_Throw findLocation_Next findLocation_Throw
          findDonor_Next findDonor_Throw resolveRequest_Throw)

subsection \<open>The writes\<close>

lemma stateOf_simps:
  "stateOf (Next x s) = s" "stateOf (Return r s) = s" "stateOf (Throw s) = s"
  by (simp_all add: stateOf_def)

lemma removeFromMap_simps:
  "processingLock (removeFromMap e d s) = processingLock s"
  "histories (removeFromMap e d s) = histories s"
  "donors (removeFromMap e d s) = donors s"
  "requests (removeFromMap e d s) = requests s"
  by (simp_all add: removeFromMap_def split: option.splits)

lemma updateRequest_Return:
  "updateRequest e d l b s = Return r s' \<Longrightarrow>
     (r = RequestExpired \<or> r = ReservationConflict \<or> r = DatabaseUpdateFailed)
     \<and> processingLock s' = processingLock s - {d} \<and> histories s' = histories s
     \<and> locations s' = locations s \<and> donors s' = donors s"
  by (auto simp: updateRequest_def Let_def release_def split: if_splits option.splits)

lemma updateRequest_Next:
  "updateRequest e d l b s = Next u s' \<Longrightarrow>
     processingLock s' = processingLock s \<and> histories s' = histories s
     \<and> locations s' = locations s \<and> donors s' = donors s"
  by (auto simp: updateRequest_def Let_def release_def split: if_splits option.splits)

text \<open>The three ways \<open>commit\<close> can end.\<close>

lemma commit_Throw:
  assumes "commit e d dn (l, dr, b) s = Throw s'"
  shows "processingLock s' = processingLock s \<and> requests s' = requests s
         \<and> locations s' = locations s \<and> donors s' = donors s"
  using assms
  by (auto simp: commit_def andThen_def split: step.splits
        dest!: createHistory_Throw createHistory_Next updateDonor_Throw updateDonor_Next
               updateRequest_Throw)

lemma commit_Return:
  assumes "commit e d dn (l, dr, b) s = Return r s'"
  shows "\<exists>h s5 s6. createHistory e d dn l dr b s = Next h s5 \<and> updateDonor e d dr s5 = Next () s6
           \<and> updateRequest e d l b s6 = Return r s'"
  using assms
  by (auto simp: commit_def andThen_def split: step.splits
        dest!: createHistory_Return updateDonor_Return)

lemma commit_Next:
  assumes "commit e d dn (l, dr, b) s = Next h s'"
  shows "\<exists>s5 s6 s7. createHistory e d dn l dr b s = Next h s5 \<and> updateDonor e d dr s5 = Next () s6
           \<and> updateRequest e d l b s6 = Next () s7 \<and> s' = removeFromMap e d s7"
  using assms
  by (auto simp: commit_def andThen_def split: step.splits)

subsection \<open>The whole call\<close>

lemma confirmDonation_resolved:
  "resolve e d rq s = Next x s4 \<Longrightarrow>
     confirmDonation e d dn rq s = respond (commit e d dn x s4)"
  "resolve e d rq s = Return r s1 \<Longrightarrow> confirmDonation e d dn rq s = (r, s1)"
  "resolve e d rq s = Throw s1 \<Longrightarrow> confirmDonation e d dn rq s = (NoResponse, s1)"
  by (simp_all add: confirmDonation_def andThen_def respond_def)

lemma commit_lock_Next:
  "commit e d dn (l, dr, b) s = Next h s' \<Longrightarrow> processingLock s' = processingLock s"
  by (auto dest!: commit_Next createHistory_Next updateDonor_Next updateRequest_Next
        simp: removeFromMap_simps)

lemma commit_lock_Return:
  "commit e d dn (l, dr, b) s = Return r s' \<Longrightarrow>
     processingLock s' = processingLock s - {d}
     \<and> (r = RequestExpired \<or> r = ReservationConflict \<or> r = DatabaseUpdateFailed)"
  by (auto dest!: commit_Return createHistory_Next updateDonor_Next updateRequest_Return)

lemma resolve_Throw_located:
  assumes "resolve e d rq s = Throw s'"
  shows "e_fails e HistoryFindOne \<or> e_fails e LocationFindOne \<or> e_fails e LocationDirectFindOne
         \<or> find (\<lambda>l. l_donorId l = Some d) (locations s) \<noteq> None"
  using assms
  by (auto simp: resolve_def andThen_def acquire_simps split: if_splits step.splits
        dest!: findExistingDonation_Next findExistingDonation_Throw findLocation_Next findLocation_Throw)

lemma respond_not_DonorNotFound:
  "fst (respond (commit e d dn (l, dr, b) s)) \<noteq> DonorNotFound"
  by (cases "commit e d dn (l, dr, b) s") (auto simp: respond_def dest!: commit_lock_Return)

lemma respond_Return_iff:
  "fst (respond m) = RequestExpired \<or> fst (respond m) = ReservationConflict
    \<Longrightarrow> \<exists>s'. m = Return (fst (respond m)) s' \<and> snd (respond m) = s'"
  by (cases m) (auto simp: respond_def)

lemma deadlinePassed_new: "\<not> deadlinePassed e (newBloodRequest e dr)"
  by (simp add: deadlinePassed_def newBloodRequest_def)

lemma commit_expired:
  assumes dl: "deadlinePassed e b"
    and ok: "\<not> e_fails e HistoryCreate" "e_newDonationId e \<notin> h_id ` set (histories s)"
            "\<not> e_fails e DonorSave" "\<not> e_fails e RequestExpireSave"
  shows "\<exists>s'. commit e d dn (l, dr, b) s = Return RequestExpired s'
           \<and> requests s' = update_first (\<lambda>r. r_id r = r_id b) markExpired (requests s)"
proof (cases "createHistory e d dn l dr b s")
  case (Throw s5)
  from createHistory_Throw[OF Throw] ok show ?thesis by simp
next
  case (Return r s5)
  from createHistory_Return[OF Return] show ?thesis ..
next
  case (Next h s5)
  from createHistory_Next[OF Next] have r5: "requests s5 = requests s" by simp
  show ?thesis
  proof (cases "updateDonor e d dr s5")
    case (Throw s6)
    from updateDonor_Throw[OF Throw] ok show ?thesis by simp
  next
    case (Return r s6)
    from updateDonor_Return[OF Return] show ?thesis ..
  next
    case u: (Next u s6)
    from updateDonor_Next[OF u] have r6: "requests s6 = requests s5" by simp
    show ?thesis
      using Next u updateRequest_expired[OF dl ok(4), of d l s6]
      by (simp add: commit_def andThen_def release_simps r5 r6)
  qed
qed

lemma map_by_unique_id:
  assumes "distinct (map key xs)" "b \<in> set xs"
  shows "map (\<lambda>x. if key x = key b then f x else x) xs = map (\<lambda>x. if x = b then f x else x) xs"
proof -
  have "inj_on key (set xs)" using assms(1) by (simp add: distinct_map)
  with assms(2) have "\<And>x. x \<in> set xs \<Longrightarrow> (key x = key b) = (x = b)"
    by (auto simp: inj_on_def)
  then show ?thesis by simp
qed

section \<open>How one call changes the counters\<close>

lemma requests_respond: "requests (snd (respond m)) = requests (stateOf m)"
  by (cases m) (simp_all add: respond_def stateOf_def release_simps)

text \<open>What the update step may do to the counter of a stored request.\<close>

lemma updateRequest_units:
  "list_all2 (\<lambda>r r'. r_id r' = r_id r \<and> r_quantity r' = r_quantity r
                \<and> (r_confirmedUnits r' = r_confirmedUnits r
                     \<or> (r_confirmedUnits r' = r_confirmedUnits r + 1
                         \<and> reservable (r_id b) (l_token l) r)))
     (requests s) (requests (stateOf (updateRequest e d l b s)))"
  (is "list_all2 ?W _ _")
proof -
  have refl: "list_all2 ?W (requests s) (requests s)"
    by (simp add: list_all2_same)
  have expired: "list_all2 ?W (requests s)
      (update_first (\<lambda>r. r_id r = r_id b) markExpired (requests s))"
    by (rule list_all2_mono[OF update_first_all2]) (auto simp: markExpired_simps)
  have inc: "list_all2 (\<lambda>r r'. r' = r \<or> (reservable (r_id b) (l_token l) r \<and> r' = incConfirmed r))
      (requests s) (update_first (reservable (r_id b) (l_token l)) incConfirmed (requests s))"
    (is "list_all2 ?I _ ?s1")
    by (rule update_first_all2)
  have inc': "list_all2 ?W (requests s) ?s1"
    by (rule list_all2_mono[OF inc]) (auto simp: incConfirmed_simps)
  have ful: "list_all2 (\<lambda>r r'. r' = r \<or> (r_id r = r_id b \<and> r' = markFulfilled e r))
      ?s1 (update_first (\<lambda>x. r_id x = r_id b) (markFulfilled e) ?s1)"
    (is "list_all2 ?F _ ?s2")
    by (rule update_first_all2)
  have both: "list_all2 ?W (requests s) ?s2"
    by (rule list_all2_trans[OF _ inc ful]) (auto simp: incConfirmed_simps markFulfilled_simps)
  show ?thesis
  proof (cases "deadlinePassed e b")
    case True
    then show ?thesis
      using refl expired
      by (cases "e_fails e RequestExpireSave")
         (simp_all add: updateRequest_expired updateRequest_expire_failed stateOf_simps release_simps)
  next
    case False
    show ?thesis
    proof (cases "e_fails e RequestFindOneAndUpdate")
      case True
      with False refl show ?thesis
        by (simp add: updateRequest_update_failed stateOf_simps release_simps)
    next
      case nf: False
      show ?thesis
      proof (cases "find (reservable (r_id b) (l_token l)) (requests s)")
        case None
        with False nf refl show ?thesis
          by (simp add: updateRequest_conflict stateOf_simps release_simps)
      next
        case (Some r)
        show ?thesis
          using inc' both
          by (simp add: updateRequest_reserved[OF False nf Some] Let_def stateOf_simps release_simps)
      qed
    qed
  qed
qed

lemma commit_units:
  "list_all2 (\<lambda>r r'. r_id r' = r_id r \<and> r_quantity r' = r_quantity r
                \<and> (r_confirmedUnits r' = r_confirmedUnits r
                     \<or> (r_confirmedUnits r' = r_confirmedUnits r + 1
                         \<and> reservable (r_id b) (l_token l) r)))
     (requests s) (requests (stateOf (commit e d dn (l, dr, b) s)))"
  (is "list_all2 ?W _ _")
proof (cases "commit e d dn (l, dr, b) s")
  case (Throw s')
  from commit_Throw[OF Throw] show ?thesis
    by (simp add: Throw stateOf_simps list_all2_same)
next
  case (Return r s')
  from commit_Return[OF Return] obtain h s5 s6 where
    h: "createHistory e d dn l dr b s = Next h s5"
    and u: "updateDonor e d dr s5 = Next () s6"
    and q: "updateRequest e d l b s6 = Return r s'" by blast
  from createHistory_Next[OF h] updateDonor_Next[OF u] have r6: "requests s6 = requests s" by simp
  from updateRequest_units[of b l s6 e d] show ?thesis
    by (simp add: q Return stateOf_simps r6)
next
  case (Next h s')
  from commit_Next[OF Next] obtain s5 s6 s7 where
    h: "createHistory e d dn l dr b s = Next h s5"
    and u: "updateDonor e d dr s5 = Next () s6"
    and q: "updateRequest e d l b s6 = Next () s7"
    and s': "s' = removeFromMap e d s7" by blast
  from createHistory_Next[OF h] updateDonor_Next[OF u] have r6: "requests s6 = requests s" by simp
  from updateRequest_units[of b l s6 e d] show ?thesis
    by (simp add: q Next stateOf_simps r6 s' removeFromMap_simps)
qed

lemma confirmDonation_units:
  "\<exists>extra. (\<forall>x \<in> set extra. r_confirmedUnits x = 0 \<and> r_quantity x = 1) \<and>
     list_all2 (\<lambda>r r'. r_id r' = r_id r \<and> r_quantity r' = r_quantity r
                \<and> (r_confirmedUnits r' = r_confirmedUnits r
                     \<or> (r_confirmedUnits r' = r_confirmedUnits r + 1
                         \<and> (\<exists>l dr b s4. resolve e d rq s = Next (l, dr, b) s4
                               \<and> reservable (r_id b) (l_token l) r))))
       (requests s @ extra) (requests (snd (confirmDonation e d dn rq s)))"
  (is "\<exists>extra. ?N extra \<and> list_all2 ?W (requests s @ extra) _")
proof (cases "resolve e d rq s")
  case (Return r s1)
  from resolve_Return[OF Return] have "requests s1 = requests s"
    by (auto simp: acquire_simps release_simps)
  then have "?N [] \<and> list_all2 ?W (requests s @ []) (requests (snd (confirmDonation e d dn rq s)))"
    using Return by (simp add: confirmDonation_resolved list_all2_same)
  then show ?thesis by blast
next
  case (Throw s1)
  from resolve_Throw[OF Throw] have "requests s1 = requests s"
    by (auto simp: acquire_simps)
  then have "?N [] \<and> list_all2 ?W (requests s @ []) (requests (snd (confirmDonation e d dn rq s)))"
    using Throw by (simp add: confirmDonation_resolved list_all2_same release_simps)
  then show ?thesis by blast
next
  case (Next x s4)
  obtain l dr b where x: "x = (l, dr, b)" by (cases x) auto
  note res = Next[unfolded x]
  have cd: "requests (snd (confirmDonation e d dn rq s))
      = requests (stateOf (commit e d dn (l, dr, b) s4))"
    using res by (simp add: confirmDonation_resolved requests_respond)
  have step: "list_all2 ?W (requests s4) (requests (stateOf (commit e d dn (l, dr, b) s4)))"
    by (rule list_all2_mono[OF commit_units]) (use res in blast)
  from resolve_Next[OF res]
  have "(requests s4 = requests s @ []) \<or> (requests s4 = requests s @ [b] \<and> b = newBloodRequest e dr)"
    by (auto simp: acquire_simps)
  then show ?thesis
  proof
    assume "requests s4 = requests s @ []"
    with step cd have "?N [] \<and> list_all2 ?W (requests s @ []) (requests (snd (confirmDonation e d dn rq s)))"
      by simp
    then show ?thesis by blast
  next
    assume a: "requests s4 = requests s @ [b] \<and> b = newBloodRequest e dr"
    with step cd have "?N [b] \<and> list_all2 ?W (requests s @ [b]) (requests (snd (confirmDonation e d dn rq s)))"
      by (simp add: newBloodRequest_simps)
    then show ?thesis by blast
  qed
qed

lemma list_all2_partner:
  "list_all2 P xs ys \<Longrightarrow> y \<in> set ys \<Longrightarrow> \<exists>x \<in> set xs. P x y"
  by (induction rule: list_all2_induct) auto

lemma confirmDonation_keeps_upper:
  assumes "\<forall>r \<in> set (requests s). r_confirmedUnits r \<le> r_quantity r"
  shows "\<forall>r \<in> set (requests (snd (confirmDonation e d dn rq s))). r_confirmedUnits r \<le> r_quantity r"
proof
  fix r' assume r': "r' \<in> set (requests (snd (confirmDonation e d dn rq s)))"
  from confirmDonation_units[of e d rq s dn] obtain extra where
    n: "\<forall>x \<in> set extra. r_confirmedUnits x = 0 \<and> r_quantity x = 1"
    and a: "list_all2 (\<lambda>r r'. r_id r' = r_id r \<and> r_quantity r' = r_quantity r
                \<and> (r_confirmedUnits r' = r_confirmedUnits r
                     \<or> (r_confirmedUnits r' = r_confirmedUnits r + 1
                         \<and> (\<exists>l dr b s4. resolve e d rq s = Next (l, dr, b) s4
                               \<and> reservable (r_id b) (l_token l) r))))
       (requests s @ extra) (requests (snd (confirmDonation e d dn rq s)))" by blast
  from list_all2_partner[OF a r'] obtain r where
    r: "r \<in> set (requests s) \<or> r \<in> set extra"
    and q: "r_quantity r' = r_quantity r"
    and c: "r_confirmedUnits r' = r_confirmedUnits r
            \<or> (r_confirmedUnits r' = r_confirmedUnits r + 1 \<and> r_confirmedUnits r < r_quantity r)"
    by (auto simp: reservable_def)
  from r assms n have "r_confirmedUnits r \<le> r_quantity r" by auto
  with q c show "r_confirmedUnits r' \<le> r_quantity r'" by auto
qed

lemma confirmDonation_keeps_lower:
  assumes "\<forall>r \<in> set (requests s). 0 \<le> r_confirmedUnits r"
  shows "\<forall>r \<in> set (requests (snd (confirmDonation e d dn rq s))). 0 \<le> r_confirmedUnits r"
proof
  fix r' assume r': "r' \<in> set (requests (snd (confirmDonation e d dn rq s)))"
  from confirmDonation_units[of e d rq s dn] obtain extra where
    n: "\<forall>x \<in> set extra. r_confirmedUnits x = 0 \<and> r_quantity x = 1"
    and a: "list_all2 (\<lambda>r r'. r_id r' = r_id r \<and> r_quantity r' = r_quantity r
                \<and> (r_confirmedUnits r' = r_confirmedUnits r
                     \<or> (r_confirmedUnits r' = r_confirmedUnits r + 1
                         \<and> (\<exists>l dr b s4. resolve e d rq s = Next (l, dr, b) s4
                               \<and> reservable (r_id b) (l_token l) r))))
       (requests s @ extra) (requests (snd (confirmDonation e d dn rq s)))" by blast
  from list_all2_partner[OF a r'] obtain r where
    r: "r \<in> set (requests s) \<or> r \<in> set extra"
    and c: "r_confirmedUnits r' = r_confirmedUnits r \<or> r_confirmedUnits r' = r_confirmedUnits r + 1"
    by auto
  from r assms n have "0 \<le> r_confirmedUnits r" by auto
  with c show "0 \<le> r_confirmedUnits r'" by auto
qed

lemma run_keeps_upper:
  "\<forall>r \<in> set (requests s). r_confirmedUnits r \<le> r_quantity r \<Longrightarrow>
   \<forall>r \<in> set (requests (run cs s)). r_confirmedUnits r \<le> r_quantity r"
proof (induction cs arbitrary: s)
  case Nil
  then show ?case by simp
next
  case (Cons c cs)
  show ?case
    using Cons.IH[OF confirmDonation_keeps_upper[OF Cons.prems]] by simp
qed

lemma run_keeps_lower:
  "\<forall>r \<in> set (requests s). 0 \<le> r_confirmedUnits r \<Longrightarrow>
   \<forall>r \<in> set (requests (run cs s)). 0 \<le> r_confirmedUnits r"
proof (induction cs arbitrary: s)
  case Nil
  then show ?case by simp
next
  case (Cons c cs)
  show ?case
    using Cons.IH[OF confirmDonation_keeps_lower[OF Cons.prems]] by simp
qed

lemma confirmDonation_units_nth:
  assumes i: "i < length (requests s)"
  shows "i < length (requests (snd (confirmDonation e d dn rq s)))
     \<and> r_id (requests (snd (confirmDonation e d dn rq s)) ! i) = r_id (requests s ! i)
     \<and> r_quantity (requests (snd (confirmDonation e d dn rq s)) ! i) = r_quantity (requests s ! i)
     \<and> (r_confirmedUnits (requests (snd (confirmDonation e d dn rq s)) ! i) = r_confirmedUnits (requests s ! i)
        \<or> (r_confirmedUnits (requests (snd (confirmDonation e d dn rq s)) ! i)
               = r_confirmedUnits (requests s ! i) + 1
            \<and> (\<exists>l dr b s4. resolve e d rq s = Next (l, dr, b) s4
                  \<and> reservable (r_id b) (l_token l) (requests s ! i))))"
proof -
  from confirmDonation_units[of e d rq s dn] obtain extra where
    a: "list_all2 (\<lambda>r r'. r_id r' = r_id r \<and> r_quantity r' = r_quantity r
                \<and> (r_confirmedUnits r' = r_confirmedUnits r
                     \<or> (r_confirmedUnits r' = r_confirmedUnits r + 1
                         \<and> (\<exists>l dr b s4. resolve e d rq s = Next (l, dr, b) s4
                               \<and> reservable (r_id b) (l_token l) r))))
       (requests s @ extra) (requests (snd (confirmDonation e d dn rq s)))" by blast
  from i have i': "i < length (requests s @ extra)" by simp
  from list_all2_lengthD[OF a] i' have len: "i < length (requests (snd (confirmDonation e d dn rq s)))"
    by simp
  from list_all2_nthD[OF a i'] i len show ?thesis
    by (simp add: nth_append)
qed


section \<open>How one call changes a stored request when ids are unique\<close>

lemma list_all2_map_same:
  "(\<And>x. x \<in> set xs \<Longrightarrow> P x (f x)) \<Longrightarrow> list_all2 P xs (map f xs)"
  by (simp add: list_all2_map2 list_all2_same)

lemma unique_by_id:
  "distinct (map key xs) \<Longrightarrow> x \<in> set xs \<Longrightarrow> y \<in> set xs \<Longrightarrow> key x = key y \<Longrightarrow> x = y"
  by (auto simp: distinct_map inj_on_def)

lemma updateRequest_change:
  assumes uniq: "distinct (map r_id (requests s))" and bin: "b \<in> set (requests s)"
  shows "list_all2 (requestChange e l b) (requests s) (requests (stateOf (updateRequest e d l b s)))"
proof -
  have same: "list_all2 (requestChange e l b) (requests s) (requests s)"
    by (simp add: list_all2_same requestChange_def)
  show ?thesis
  proof (cases "deadlinePassed e b")
    case True
    show ?thesis
    proof (cases "e_fails e RequestExpireSave")
      case True
      with \<open>deadlinePassed e b\<close> same show ?thesis
        by (simp add: updateRequest_expire_failed stateOf_simps release_simps)
    next
      case False
      have "update_first (\<lambda>r. r_id r = r_id b) markExpired (requests s)
          = map (\<lambda>r. if r_id r = r_id b then markExpired r else r) (requests s)"
        by (rule update_first_unique[OF uniq]) simp
      also have "\<dots> = map (\<lambda>r. if r = b then markExpired r else r) (requests s)"
        by (rule map_by_unique_id[OF uniq bin])
      finally have eq: "update_first (\<lambda>r. r_id r = r_id b) markExpired (requests s)
          = map (\<lambda>r. if r = b then markExpired r else r) (requests s)" .
      have "list_all2 (requestChange e l b) (requests s)
              (map (\<lambda>r. if r = b then markExpired r else r) (requests s))"
        by (rule list_all2_map_same) (simp add: requestChange_def True)
      with True False show ?thesis
        by (simp add: updateRequest_expired stateOf_simps release_simps eq)
    qed
  next
    case np: False
    show ?thesis
    proof (cases "e_fails e RequestFindOneAndUpdate")
      case True
      with np same show ?thesis
        by (simp add: updateRequest_update_failed stateOf_simps release_simps)
    next
      case nf: False
      show ?thesis
      proof (cases "find (reservable (r_id b) (l_token l)) (requests s)")
        case None
        with np nf same show ?thesis
          by (simp add: updateRequest_conflict stateOf_simps release_simps)
      next
        case (Some r0)
        then have r0: "r0 \<in> set (requests s)" "reservable (r_id b) (l_token l) r0"
          by (auto dest: find_Some_mem)
        have only: "\<And>x. x \<in> set (requests s) \<Longrightarrow> r_id x = r_id b \<Longrightarrow> x = r0"
          using unique_by_id[OF uniq _ r0(1)] reservable_id[OF r0(2)] by simp
        let ?inc = "\<lambda>x. if reservable (r_id b) (l_token l) x then incConfirmed x else x"
        have s1: "update_first (reservable (r_id b) (l_token l)) incConfirmed (requests s)
            = map ?inc (requests s)"
          by (rule update_first_unique[OF uniq]) (rule reservable_id)
        have ids1: "map r_id (map ?inc (requests s)) = map r_id (requests s)"
          by (simp add: incConfirmed_simps comp_def if_distrib[of r_id] cong: if_cong)
        have d1: "distinct (map r_id (map ?inc (requests s)))"
          unfolding ids1 by (rule uniq)
        have s2: "update_first (\<lambda>x. r_id x = r_id b) (markFulfilled e) (map ?inc (requests s))
            = map (\<lambda>x. if r_id x = r_id b then markFulfilled e x else x) (map ?inc (requests s))"
          by (rule update_first_unique[OF d1]) simp
        have c1: "list_all2 (requestChange e l b) (requests s) (map ?inc (requests s))"
          if "r_confirmedUnits r0 + 1 < r_quantity r0 \<or> e_fails e RequestFulfilSave"
        proof (rule list_all2_map_same)
          fix x assume x: "x \<in> set (requests s)"
          show "requestChange e l b x (?inc x)"
          proof (cases "reservable (r_id b) (l_token l) x")
            case True
            from only[OF x reservable_id[OF True]] have "x = r0" .
            with True that np show ?thesis by (simp add: requestChange_def)
          next
            case False
            then show ?thesis by (simp add: requestChange_def)
          qed
        qed
        have c2: "list_all2 (requestChange e l b) (requests s)
             (map (\<lambda>x. if r_id x = r_id b then markFulfilled e x else x) (map ?inc (requests s)))"
          if "r_quantity r0 \<le> r_confirmedUnits r0 + 1" "\<not> e_fails e RequestFulfilSave"
          unfolding map_map
        proof (rule list_all2_map_same)
          fix x assume x: "x \<in> set (requests s)"
          show "requestChange e l b x
             (((\<lambda>x. if r_id x = r_id b then markFulfilled e x else x) \<circ> ?inc) x)"
          proof (cases "reservable (r_id b) (l_token l) x")
            case True
            from only[OF x reservable_id[OF True]] have "x = r0" .
            with True that np show ?thesis
              using reservable_id[OF True] by (simp add: requestChange_def incConfirmed_simps)
          next
            case False
            with x only r0(2) have "r_id x \<noteq> r_id b" by auto
            with False show ?thesis by (simp add: requestChange_def)
          qed
        qed
        show ?thesis
          using c1 c2
          by (simp add: updateRequest_reserved[OF np nf Some] Let_def stateOf_simps release_simps
                s1 s2 not_le)
      qed
    qed
  qed
qed

lemma requestChange_id: "requestChange e l b r r' \<Longrightarrow> r_id r' = r_id r"
  by (auto simp: requestChange_def markExpired_simps incConfirmed_simps markFulfilled_simps)

lemma requestChange_refl: "requestChange e l b r r"
  by (simp add: requestChange_def)

lemma commit_change:
  assumes uniq: "distinct (map r_id (requests s))" and bin: "b \<in> set (requests s)"
  shows "list_all2 (requestChange e l b) (requests s) (requests (stateOf (commit e d dn (l, dr, b) s)))"
proof (cases "commit e d dn (l, dr, b) s")
  case (Throw s')
  from commit_Throw[OF Throw] show ?thesis
    by (simp add: Throw stateOf_simps list_all2_same requestChange_refl)
next
  case (Return r s')
  from commit_Return[OF Return] obtain h s5 s6 where
    h: "createHistory e d dn l dr b s = Next h s5"
    and u: "updateDonor e d dr s5 = Next () s6"
    and q: "updateRequest e d l b s6 = Return r s'" by blast
  from createHistory_Next[OF h] updateDonor_Next[OF u] have r6: "requests s6 = requests s" by simp
  from updateRequest_change[of s6 b e l d] uniq bin show ?thesis
    by (simp add: q Return stateOf_simps r6)
next
  case (Next h s')
  from commit_Next[OF Next] obtain s5 s6 s7 where
    h: "createHistory e d dn l dr b s = Next h s5"
    and u: "updateDonor e d dr s5 = Next () s6"
    and q: "updateRequest e d l b s6 = Next () s7"
    and s': "s' = removeFromMap e d s7" by blast
  from createHistory_Next[OF h] updateDonor_Next[OF u] have r6: "requests s6 = requests s" by simp
  from updateRequest_change[of s6 b e l d] uniq bin show ?thesis
    by (simp add: q Next stateOf_simps r6 s' removeFromMap_simps)
qed

text \<open>The resolved request is stored, and ids stay unique when it was created.\<close>

lemma resolve_Next_stored:
  assumes res: "resolve e d rq s = Next (l, dr, b) s4"
    and uniq: "distinct (map r_id (requests s))"
  shows "b \<in> set (requests s4) \<and> distinct (map r_id (requests s4))
     \<and> (requests s4 = requests s \<or> (requests s4 = requests s @ [b] \<and> b = newBloodRequest e dr))"
  using resolve_Next[OF res] uniq by (auto simp: acquire_simps)

lemma confirmDonation_change:
  assumes uniq: "distinct (map r_id (requests s))"
  shows "((\<forall>x s4. resolve e d rq s \<noteq> Next x s4)
           \<and> requests (snd (confirmDonation e d dn rq s)) = requests s)
     \<or> (\<exists>l dr b s4. resolve e d rq s = Next (l, dr, b) s4
           \<and> b \<in> set (requests s4) \<and> distinct (map r_id (requests s4))
           \<and> (requests s4 = requests s \<or> (requests s4 = requests s @ [b] \<and> b = newBloodRequest e dr))
           \<and> list_all2 (requestChange e l b) (requests s4) (requests (snd (confirmDonation e d dn rq s))))"
proof (cases "resolve e d rq s")
  case (Return r s1)
  from resolve_Return[OF Return] have "requests s1 = requests s"
    by (auto simp: acquire_simps release_simps)
  with Return show ?thesis by (simp add: confirmDonation_resolved)
next
  case (Throw s1)
  from resolve_Throw[OF Throw] have "requests s1 = requests s"
    by (auto simp: acquire_simps)
  with Throw show ?thesis by (simp add: confirmDonation_resolved release_simps)
next
  case (Next x s4)
  obtain l dr b where x: "x = (l, dr, b)" by (cases x) auto
  note res = Next[unfolded x]
  note st = resolve_Next_stored[OF res uniq]
  have cd: "requests (snd (confirmDonation e d dn rq s))
      = requests (stateOf (commit e d dn (l, dr, b) s4))"
    using res by (simp add: confirmDonation_resolved requests_respond)
  from st have "list_all2 (requestChange e l b) (requests s4)
      (requests (stateOf (commit e d dn (l, dr, b) s4)))"
    by (intro commit_change) simp_all
  with st res cd show ?thesis by auto
qed

lemma confirmDonation_distinct:
  assumes uniq: "distinct (map r_id (requests s))"
  shows "distinct (map r_id (requests (snd (confirmDonation e d dn rq s))))
       \<and> length (requests s) \<le> length (requests (snd (confirmDonation e d dn rq s)))"
proof -
  from confirmDonation_change[OF uniq, of e d rq dn] show ?thesis
  proof
    assume "(\<forall>x s4. resolve e d rq s \<noteq> Next x s4)
           \<and> requests (snd (confirmDonation e d dn rq s)) = requests s"
    with uniq show ?thesis by simp
  next
    assume "\<exists>l dr b s4. resolve e d rq s = Next (l, dr, b) s4
           \<and> b \<in> set (requests s4) \<and> distinct (map r_id (requests s4))
           \<and> (requests s4 = requests s \<or> (requests s4 = requests s @ [b] \<and> b = newBloodRequest e dr))
           \<and> list_all2 (requestChange e l b) (requests s4) (requests (snd (confirmDonation e d dn rq s)))"
    then obtain l dr b s4 where res: "resolve e d rq s = Next (l, dr, b) s4"
      and d4: "distinct (map r_id (requests s4))"
      and len: "requests s4 = requests s \<or> requests s4 = requests s @ [b]"
      and ch: "list_all2 (requestChange e l b) (requests s4) (requests (snd (confirmDonation e d dn rq s)))"
      by blast
    from ch have "list_all2 (\<lambda>r r'. r_id r = r_id r') (requests s4) (requests (snd (confirmDonation e d dn rq s)))"
      by (rule list_all2_mono) (simp add: requestChange_id)
    then have "map r_id (requests s4) = map r_id (requests (snd (confirmDonation e d dn rq s)))"
      by (simp add: list.rel_map list.rel_eq[symmetric] list_all2_conv_all_nth)
    with d4 have "distinct (map r_id (requests (snd (confirmDonation e d dn rq s))))" by simp
    moreover from list_all2_lengthD[OF ch] len
    have "length (requests s) \<le> length (requests (snd (confirmDonation e d dn rq s)))" by auto
    ultimately show ?thesis by simp
  qed
qed

text \<open>One call leaves a request that is not active as it is.\<close>

lemma confirmDonation_frozen:
  assumes uniq: "distinct (map r_id (requests s))"
    and i: "i < length (requests s)" and closed: "r_status (requests s ! i) \<noteq> ''active''"
  shows "requests (snd (confirmDonation e d dn rq s)) ! i = requests s ! i"
proof -
  from confirmDonation_change[OF uniq, of e d rq dn] show ?thesis
  proof
    assume "(\<forall>x s4. resolve e d rq s \<noteq> Next x s4)
           \<and> requests (snd (confirmDonation e d dn rq s)) = requests s"
    then show ?thesis by simp
  next
    assume "\<exists>l dr b s4. resolve e d rq s = Next (l, dr, b) s4
           \<and> b \<in> set (requests s4) \<and> distinct (map r_id (requests s4))
           \<and> (requests s4 = requests s \<or> (requests s4 = requests s @ [b] \<and> b = newBloodRequest e dr))
           \<and> list_all2 (requestChange e l b) (requests s4) (requests (snd (confirmDonation e d dn rq s)))"
    then obtain l dr b s4 where res: "resolve e d rq s = Next (l, dr, b) s4"
      and len: "requests s4 = requests s \<or> requests s4 = requests s @ [b]"
      and ch: "list_all2 (requestChange e l b) (requests s4) (requests (snd (confirmDonation e d dn rq s)))"
      by blast
    from len i have i4: "i < length (requests s4)" and n4: "requests s4 ! i = requests s ! i"
      by (auto simp: nth_append)
    from list_all2_nthD[OF ch i4] n4 closed show ?thesis
      by (auto simp: requestChange_def deadlinePassed_def reservable_def)
  qed
qed

lemma run_frozen:
  "distinct (map r_id (requests s)) \<Longrightarrow> i < length (requests s) \<Longrightarrow>
   r_status (requests s ! i) \<noteq> ''active'' \<Longrightarrow>
   i < length (requests (run cs s)) \<and> requests (run cs s) ! i = requests s ! i"
proof (induction cs arbitrary: s)
  case Nil
  then show ?case by simp
next
  case (Cons c cs)
  let ?s = "snd (confirmDonation (c_env c) (c_donorId c) (c_donorName c) (c_requestId c) s)"
  from confirmDonation_distinct[OF Cons.prems(1)]
  have d: "distinct (map r_id (requests ?s))" and len: "i < length (requests ?s)"
    using Cons.prems(2) by (auto intro: less_le_trans)
  from confirmDonation_frozen[OF Cons.prems] have same: "requests ?s ! i = requests s ! i" .
  from Cons.IH[OF d len] same Cons.prems(3) show ?case by simp
qed

subsection \<open>A resolved request that is not active\<close>

lemma updateRequest_closed:
  assumes uniq: "distinct (map r_id (requests s))" and bin: "b \<in> set (requests s)"
    and closed: "r_status b \<noteq> ''active''"
  shows "updateRequest e d l b s
     = Return (if e_fails e RequestFindOneAndUpdate then DatabaseUpdateFailed else ReservationConflict)
         (release d s)"
proof -
  have np: "\<not> deadlinePassed e b" using closed by (simp add: deadlinePassed_def)
  have "find (reservable (r_id b) (l_token l)) (requests s) = None"
  proof (rule ccontr)
    assume "find (reservable (r_id b) (l_token l)) (requests s) \<noteq> None"
    then obtain r0 where "find (reservable (r_id b) (l_token l)) (requests s) = Some r0" by auto
    then have r0: "r0 \<in> set (requests s)" "reservable (r_id b) (l_token l) r0"
      by (auto dest: find_Some_mem)
    then have "r0 = b" using unique_by_id[OF uniq r0(1) bin] reservable_id[OF r0(2)] by simp
    with r0(2) closed show False by (simp add: reservable_def)
  qed
  with np show ?thesis
    by (simp add: updateRequest_update_failed updateRequest_conflict)
qed

lemma confirmDonation_closed:
  assumes res: "resolve e d rq s = Next (l, dr, b) s4"
    and uniq: "distinct (map r_id (requests s))"
    and closed: "r_status b \<noteq> ''active''"
  shows "fst (confirmDonation e d dn rq s) = ReservationConflict
       \<or> fst (confirmDonation e d dn rq s) = DatabaseUpdateFailed
       \<or> fst (confirmDonation e d dn rq s) = NoResponse"
proof -
  note st = resolve_Next_stored[OF res uniq]
  have cd: "confirmDonation e d dn rq s = respond (commit e d dn (l, dr, b) s4)"
    using res by (simp add: confirmDonation_resolved)
  show ?thesis
  proof (cases "commit e d dn (l, dr, b) s4")
    case (Throw s')
    then show ?thesis by (simp add: cd respond_def)
  next
    case (Return r s')
    from commit_lock_Return[OF Return] have "r \<noteq> RequestExpired \<longrightarrow> ?thesis"
      using Return by (auto simp: cd respond_def)
    moreover have "r \<noteq> RequestExpired"
    proof -
      from commit_Return[OF Return] obtain h s5 s6 where
        h: "createHistory e d dn l dr b s4 = Next h s5"
        and u: "updateDonor e d dr s5 = Next () s6"
        and q: "updateRequest e d l b s6 = Return r s'" by blast
      from createHistory_Next[OF h] updateDonor_Next[OF u] have r6: "requests s6 = requests s4" by simp
      from updateRequest_closed[of s6 b e d l] st closed q show ?thesis
        by (auto simp: r6 split: if_splits)
    qed
    ultimately show ?thesis by simp
  next
    case (Next h s')
    from commit_Next[OF Next] obtain s5 s6 s7 where
      h: "createHistory e d dn l dr b s4 = Next h s5"
      and u: "updateDonor e d dr s5 = Next () s6"
      and q: "updateRequest e d l b s6 = Next () s7" by blast
    from createHistory_Next[OF h] updateDonor_Next[OF u] have r6: "requests s6 = requests s4" by simp
    from updateRequest_closed[of s6 b e d l] st closed q have False
      by (simp add: r6)
    then show ?thesis ..
  qed
qed

section \<open>Properties of the recency filter\<close>

lemma isRecent_iff:
  "isRecent (timeClip c) l \<longleftrightarrow>
     \<bar>c\<bar> \<le> 8640000000000000
     \<and> (\<exists>t. (case l_timestamp l of
                 Some t \<Rightarrow> Some t
               | None \<Rightarrow> (case l_responseTime l of Some t \<Rightarrow> Some t | None \<Rightarrow> l_createdAt l)) = Some t
              \<and> \<bar>t\<bar> \<le> 8640000000000000 \<and> c \<le> t)"
  by (auto simp: isRecent_def locationTime_def dateOrElse_def timeClip_def split: option.splits)

text \<open>
  Claim C9, as the code has it. Let the window be the given number of hours, one hour
  when none is given, and the cutoff be now minus that many times 3600000 ms. The
  effective time of an entry is its timestamp when it has one, else its responseTime
  when it has one, else its createdAt. When the cutoff is a valid date (at most 8.64e15
  ms from the epoch), the filter returns exactly the entries that have a valid
  effective time at or after the cutoff, in their original order and unchanged: an entry
  exactly at the cutoff is kept and an entry strictly older is dropped. When the cutoff
  is not a valid date, the filter returns no entry.
\<close>

theorem filterRecentLocations_exact:
  assumes hours: "hours = (case w of None \<Rightarrow> 1 | Some h \<Rightarrow> h)"
    and cutoff: "cutoff = now - hours * 3600000"
    and effective: "effective = (\<lambda>l. case l_timestamp l of
                       Some t \<Rightarrow> Some t
                     | None \<Rightarrow> (case l_responseTime l of Some t \<Rightarrow> Some t | None \<Rightarrow> l_createdAt l))"
  shows "filterRecentLocations now ls w
       = (if \<bar>cutoff\<bar> \<le> 8640000000000000
          then filter (\<lambda>l. \<exists>t. effective l = Some t \<and> \<bar>t\<bar> \<le> 8640000000000000 \<and> cutoff \<le> t) ls
          else [])
     \<and> subseq (filterRecentLocations now ls w) ls
     \<and> (\<bar>cutoff\<bar> \<le> 8640000000000000 \<and> l \<in> set ls \<and> effective l = Some cutoff
          \<longrightarrow> l \<in> set (filterRecentLocations now ls w))
     \<and> (effective l = Some t \<and> t < cutoff \<longrightarrow> l \<notin> set (filterRecentLocations now ls w))"
proof -
  have c: "now - (case w of None \<Rightarrow> 1 | Some h \<Rightarrow> h) * 60 * 60 * 1000 = cutoff"
    by (simp add: cutoff hours)
  have eq: "filterRecentLocations now ls w
       = filter (\<lambda>l. \<bar>cutoff\<bar> \<le> 8640000000000000
                    \<and> (\<exists>t. effective l = Some t \<and> \<bar>t\<bar> \<le> 8640000000000000 \<and> cutoff \<le> t)) ls"
    unfolding filterRecentLocations_def Let_def c
    by (rule filter_cong) (simp_all add: isRecent_iff effective)
  have sub: "subseq (filterRecentLocations now ls w) ls"
    by (simp add: filterRecentLocations_def Let_def)
  show ?thesis
    using sub by (auto simp: eq)
qed

theorem filterRecentLocations_exact_witness:
  "filterRecentLocations 20000000
      [loc0\<lparr>l_timestamp := Some 12799999, l_responseTime := Some 19000000, l_createdAt := Some 19000000\<rparr>,
       loc0\<lparr>l_timestamp := Some 12800000\<rparr>,
       loc0\<lparr>l_responseTime := Some 13000000, l_createdAt := Some 1\<rparr>,
       loc0,
       loc0\<lparr>l_createdAt := Some 17000000\<rparr>] (Some 2)
    = [loc0\<lparr>l_timestamp := Some 12800000\<rparr>,
       loc0\<lparr>l_responseTime := Some 13000000, l_createdAt := Some 1\<rparr>,
       loc0\<lparr>l_createdAt := Some 17000000\<rparr>]
   \<and> filterRecentLocations 20000000
      [loc0\<lparr>l_timestamp := Some 12799999, l_responseTime := Some 19000000, l_createdAt := Some 19000000\<rparr>,
       loc0\<lparr>l_timestamp := Some 12800000\<rparr>,
       loc0\<lparr>l_responseTime := Some 13000000, l_createdAt := Some 1\<rparr>,
       loc0,
       loc0\<lparr>l_createdAt := Some 17000000\<rparr>] None
    = [loc0\<lparr>l_createdAt := Some 17000000\<rparr>]"
proof -
  note t = filterRecentLocations_exact[OF refl refl refl, where now = 20000000]
  show ?thesis
    using t[where w = "Some 2"] t[where w = None]
    by (simp add: loc0_def)
qed

text \<open>
  Claim C9 as stated speaks of every window. With a window so long that now minus the
  window is no valid date (three thousand million hours here), the entry below, whose
  timestamp is the time of the call itself and so after the cutoff, is dropped.
\<close>

theorem filterRecentLocations_invalid_cutoff:
  "1700000000000 - 3000000000 * 3600000 \<le> (1700000000000 :: int)
   \<and> l_timestamp (loc0\<lparr>l_timestamp := Some 1700000000000\<rparr>) = Some 1700000000000
   \<and> filterRecentLocations 1700000000000 [loc0\<lparr>l_timestamp := Some 1700000000000\<rparr>]
        (Some 3000000000) = []"
  by (simp add: filterRecentLocations_def isRecent_def timeClip_def)

section \<open>Properties of the notification hub\<close>

text \<open>Subscribing registers the connection under its hospital, so that a notification
  for that hospital reaches it.\<close>

lemma map_of_addClient:
  "map_of (addClient h c cl) h = Some (set_add c (case map_of cl h of None \<Rightarrow> [] | Some s \<Rightarrow> s))"
proof -
  have upd: "\<And>xs. map_of xs h = Some s \<Longrightarrow>
      map_of (map (\<lambda>(hId, s). if hId = h then (hId, set_add c s) else (hId, s)) xs) h
        = Some (set_add c s)" for s
  proof -
    fix xs :: clients
    show "map_of xs h = Some s \<Longrightarrow>
      map_of (map (\<lambda>(hId, s). if hId = h then (hId, set_add c s) else (hId, s)) xs) h
        = Some (set_add c s)"
      by (induction xs) (auto split: if_splits)
  qed
  show ?thesis
  proof (cases "map_of cl h")
    case None
    then have "map_of (cl @ [(h, [])]) h = Some []" by (simp add: map_add_Some_iff)
    from upd[OF this] None show ?thesis by (simp add: addClient_def)
  next
    case (Some s)
    from upd[OF Some] Some show ?thesis by (simp add: addClient_def)
  qed
qed

lemma targeted_recipients:
  assumes "n_hospitalId n = Some h" "h \<noteq> []"
  shows "map fst (broadcastNotification n cl) = (case map_of cl h of None \<Rightarrow> [] | Some s \<Rightarrow> s)"
  using assms
  by (auto simp: broadcastNotification_def Let_def truthy_def comp_def split: option.splits)

lemma subscriber_receives:
  assumes "n_hospitalId n = Some h" "h \<noteq> []"
  shows "c \<in> set (map fst (broadcastNotification n (addClient h c cl)))"
  unfolding targeted_recipients[OF assms] map_of_addClient
  by (simp add: set_add_def)

text \<open>Unsubscribing removes it again (and the hospital's entry with its last
  connection).\<close>

lemma map_of_removeClient:
  "map_of (removeClient h c cl) h
     = (case map_of cl h of
          None \<Rightarrow> None
        | Some s \<Rightarrow> if removeAll c s = [] then None else Some (removeAll c s))"
proof -
  have gone: "map_of (filter (\<lambda>(hId, _). hId \<noteq> h) xs) h = None" for xs :: clients
    by (induction xs) auto
  have upd: "map_of xs h = Some s \<Longrightarrow>
      map_of (map (\<lambda>(hId, t). if hId = h then (hId, s') else (hId, t)) xs) h = Some s'"
    for xs :: clients and s s'
    by (induction xs) (auto split: if_splits)
  show ?thesis
    by (cases "map_of cl h") (simp_all add: removeClient_def Let_def gone upd)
qed

lemma unsubscribed_receives_nothing:
  assumes "n_hospitalId n = Some h" "h \<noteq> []"
  shows "c \<notin> set (map fst (broadcastNotification n (removeClient h c cl)))"
  unfolding targeted_recipients[OF assms] map_of_removeClient
  by (simp split: option.splits)

text \<open>
  Claim C8. A notification that carries a (non-empty) hospital id is written to exactly
  the connections registered under that hospital, in registration order,
  and to nobody when that hospital has no entry or an empty set. A notification without
  a hospital id (or with the empty string for one, which JavaScript takes for none) is
  written to every connection of every hospital, hospital by hospital. Every write
  carries the notification itself.
\<close>

theorem broadcastNotification_targets:
  "(n_hospitalId n = Some h \<and> h \<noteq> [] \<longrightarrow>
      map fst (broadcastNotification n cl) = (case map_of cl h of None \<Rightarrow> [] | Some s \<Rightarrow> s)
      \<and> (map_of cl h = None \<or> map_of cl h = Some [] \<longrightarrow> broadcastNotification n cl = []))
   \<and> (n_hospitalId n = None \<or> n_hospitalId n = Some [] \<longrightarrow>
      map fst (broadcastNotification n cl) = concat (map snd cl))
   \<and> (\<forall>w \<in> set (broadcastNotification n cl). snd w = n)"
proof -
  have g: "map fst (concat (map (\<lambda>(hId, s). map (\<lambda>res. (res, n)) s) cl)) = concat (map snd cl)"
    by (induction cl) (auto simp: comp_def)
  have p: "\<forall>w \<in> set (concat (map (\<lambda>(hId, s). map (\<lambda>res. (res, n)) s) cl)). snd w = n"
    by auto
  show ?thesis
    using g p
    by (auto simp: broadcastNotification_def Let_def truthy_def comp_def split: option.splits)
qed

theorem broadcastNotification_targets_witness:
  "map fst (broadcastNotification \<lparr>n_hospitalId = Some ''H1'', n_title = ''t'', n_message = ''m''\<rparr>
      [(''H1'', [1, 2]), (''H2'', [3])]) = [1, 2]
   \<and> map fst (broadcastNotification \<lparr>n_hospitalId = Some ''H3'', n_title = ''t'', n_message = ''m''\<rparr>
      [(''H1'', [1, 2]), (''H2'', [3])]) = []
   \<and> map fst (broadcastNotification \<lparr>n_hospitalId = None, n_title = ''t'', n_message = ''m''\<rparr>
      [(''H1'', [1, 2]), (''H2'', [3])]) = [1, 2, 3]"
  using broadcastNotification_targets
      [of "\<lparr>n_hospitalId = Some ''H1'', n_title = ''t'', n_message = ''m''\<rparr>" "''H1''"
          "[(''H1'', [1, 2]), (''H2'', [3])]"]
    broadcastNotification_targets
      [of "\<lparr>n_hospitalId = Some ''H3'', n_title = ''t'', n_message = ''m''\<rparr>" "''H3''"
          "[(''H1'', [1, 2]), (''H2'', [3])]"]
    broadcastNotification_targets
      [of "\<lparr>n_hospitalId = None, n_title = ''t'', n_message = ''m''\<rparr>" "''H1''"
          "[(''H1'', [1, 2]), (''H2'', [3])]"]
  by simp

section \<open>The duplicate guard\<close>

text \<open>
  An exception that reaches the outer \<open>catch\<close> leaves the donor id in the guard set
  and the handler without a response: the release on line 273 cannot run, because
  \<open>donorId\<close> is out of its scope there.
\<close>

lemma outer_catch_keeps_lock:
  assumes call: "confirmDonation e d dn rq s = (NoResponse, s')"
  shows "d \<in> processingLock s'"
proof (cases "resolve e d rq s")
  case (Return r s1)
  with call have "r = NoResponse" by (simp add: confirmDonation_resolved)
  with resolve_Return[OF Return] show ?thesis by simp
next
  case (Throw s1)
  with call have "s' = s1" by (simp add: confirmDonation_resolved)
  with resolve_Throw[OF Throw] show ?thesis by (simp add: acquire_simps)
next
  case (Next x s4)
  obtain l dr b where x: "x = (l, dr, b)" by (cases x) auto
  from resolve_Next[OF Next[unfolded x]]
  have l4: "processingLock s4 = insert d (processingLock s)"
    by (auto simp: acquire_simps)
  from call Next have c: "respond (commit e d dn (l, dr, b) s4) = (NoResponse, s')"
    by (simp add: confirmDonation_resolved x)
  show ?thesis
  proof (cases "commit e d dn (l, dr, b) s4")
    case (Next h s7)
    with c show ?thesis by (simp add: respond_def)
  next
    case (Return r s7)
    with c have "r = NoResponse" by (simp add: respond_def)
    with commit_lock_Return[OF Return] show ?thesis by simp
  next
    case (Throw s7)
    with c have "s' = s7" by (simp add: respond_def)
    with commit_Throw[OF Throw] l4 show ?thesis by simp
  qed
qed

lemma outer_catch_example:
  "fst (confirmDonation envLookupFails ''D1'' None None db0) = NoResponse
   \<and> ''D1'' \<in> processingLock (snd (confirmDonation envLookupFails ''D1'' None None db0))"
  by code_simp

text \<open>
  Claim C4, as the code has it by design. A call for a donor id already in the guard set
  answers AlreadyProcessing and changes nothing. After a call that answers success the
  donor id is in the guard set, and so it is after AlreadyDonated, where the handler
  keeps the entry on purpose. After DonorNotFound, RequestExpired, ReservationConflict
  and the answer "Database update failed" of the request update the donor id is not in
  the set. No other donor id is ever added or removed.
\<close>

theorem guard_release_policy:
  assumes call: "confirmDonation e d dn rq s = (resp, s')"
  shows "(d \<noteq> [] \<and> d \<in> processingLock s \<longrightarrow> resp = AlreadyProcessing \<and> s' = s)
    \<and> ((\<exists>i n g t. resp = Success i n g t) \<or> resp = AlreadyDonated \<longrightarrow> d \<in> processingLock s')
    \<and> (resp = DonorNotFound \<or> resp = RequestExpired \<or> resp = ReservationConflict
         \<or> resp = DatabaseUpdateFailed \<longrightarrow> d \<notin> processingLock s')
    \<and> (\<forall>x. x \<noteq> d \<longrightarrow> (x \<in> processingLock s' \<longleftrightarrow> x \<in> processingLock s))"
proof (cases "resolve e d rq s")
  case (Return r s1)
  with call have rs: "resp = r" "s' = s1" by (simp_all add: confirmDonation_resolved)
  from resolve_Return[OF Return] show ?thesis
    unfolding rs by (auto simp: acquire_simps release_simps)
next
  case (Throw s1)
  with call have rs: "resp = NoResponse" "s' = s1"
    by (simp_all add: confirmDonation_resolved)
  from resolve_Throw[OF Throw] show ?thesis
    unfolding rs by (auto simp: acquire_simps)
next
  case (Next x s4)
  obtain l dr b where x: "x = (l, dr, b)" by (cases x) auto
  from resolve_Next[OF Next[unfolded x]]
  have pre: "d \<noteq> []" "d \<notin> processingLock s" and l4: "processingLock s4 = insert d (processingLock s)"
    by (auto simp: acquire_simps)
  from call Next have c: "respond (commit e d dn (l, dr, b) s4) = (resp, s')"
    by (simp add: confirmDonation_resolved x)
  show ?thesis
  proof (cases "commit e d dn (l, dr, b) s4")
    case (Next h s7)
    with c have rs: "resp = Success (h_id h) (h_donorName h) (h_donorBloodGroup h) (h_completedAt h)"
      "s' = s7" by (simp_all add: respond_def)
    from commit_lock_Next[OF Next] l4 pre show ?thesis
      unfolding rs by auto
  next
    case (Return r s7)
    with c have rs: "resp = r" "s' = s7" by (simp_all add: respond_def)
    from commit_lock_Return[OF Return] l4 pre show ?thesis
      unfolding rs by auto
  next
    case (Throw s7)
    with c have rs: "resp = NoResponse" "s' = s7" by (simp_all add: respond_def)
    from commit_Throw[OF Throw] l4 pre show ?thesis
      unfolding rs by auto
  qed
qed

theorem guard_release_policy_witness:
  "fst (confirmDonation env0 ''D1'' None None dbClosed) = ReservationConflict
   \<and> ''D1'' \<notin> processingLock (snd (confirmDonation env0 ''D1'' None None dbClosed))"
proof -
  have r: "fst (confirmDonation env0 ''D1'' None None dbClosed) = ReservationConflict"
    by code_simp
  then have "confirmDonation env0 ''D1'' None None dbClosed
      = (ReservationConflict, snd (confirmDonation env0 ''D1'' None None dbClosed))"
    by (simp add: prod_eq_iff)
  from guard_release_policy[OF this] show ?thesis
    using r by simp
qed

text \<open>
  Claim C4 as stated fails twice. On the AlreadyDonated exit the donor id, which the
  call added itself, stays in the guard set. And the entry is removed after a call that
  did reserve a unit: when the fulfilment save that follows the increment fails, the
  request keeps the reserved unit, the call answers "Database update failed" and the donor
  id is no longer in the set.
\<close>

theorem guard_exits_against_the_claim:
  "''D1'' \<notin> processingLock dbDonated
   \<and> fst (confirmDonation env0 ''D1'' None None dbDonated) = AlreadyDonated
   \<and> ''D1'' \<in> processingLock (snd (confirmDonation env0 ''D1'' None None dbDonated))
   \<and> map r_confirmedUnits (requests db0) = [0]
   \<and> fst (confirmDonation envFulfilFails ''D1'' None None db0) = DatabaseUpdateFailed
   \<and> map r_confirmedUnits (requests (snd (confirmDonation envFulfilFails ''D1'' None None db0))) = [1]
   \<and> ''D1'' \<notin> processingLock (snd (confirmDonation envFulfilFails ''D1'' None None db0))"
  by code_simp

section \<open>The donation history record\<close>

text \<open>
  On both failure answers of the reservation step the history has already received the
  completed record of this call, and the locations are untouched.
\<close>

lemma failed_reservation_leaves_history:
  assumes resp: "fst (confirmDonation e d dn rq s) = RequestExpired
               \<or> fst (confirmDonation e d dn rq s) = ReservationConflict"
  shows "\<exists>h. histories (snd (confirmDonation e d dn rq s)) = histories s @ [h]
            \<and> h_status h = ''completed''
            \<and> locations (snd (confirmDonation e d dn rq s)) = locations s"
proof (cases "resolve e d rq s")
  case (Return r s1)
  from resolve_Return[OF Return] resp Return show ?thesis
    by (auto simp: confirmDonation_resolved)
next
  case (Throw s1)
  with resp show ?thesis by (simp add: confirmDonation_resolved)
next
  case (Next x s4)
  obtain l dr b where x: "x = (l, dr, b)" by (cases x) auto
  note res = Next[unfolded x]
  from resolve_Next[OF res] have h4: "histories s4 = histories s" and l4: "locations s4 = locations s"
    by (auto simp: acquire_simps)
  have cd: "confirmDonation e d dn rq s = respond (commit e d dn (l, dr, b) s4)"
    using res by (simp add: confirmDonation_resolved)
  from resp obtain r s' where c: "commit e d dn (l, dr, b) s4 = Return r s'"
    and s': "snd (confirmDonation e d dn rq s) = s'"
    unfolding cd using respond_Return_iff by blast
  from commit_Return[OF c] obtain h s5 s6 where
    h: "createHistory e d dn l dr b s4 = Next h s5"
    and u: "updateDonor e d dr s5 = Next () s6"
    and q: "updateRequest e d l b s6 = Return r s'" by blast
  from createHistory_Next[OF h] updateDonor_Next[OF u] updateRequest_Return[OF q]
  have "histories s' = histories s4 @ [h]" "h_status h = ''completed''" "locations s' = locations s4"
    by simp_all
  with h4 l4 s' show ?thesis by simp
qed

text \<open>
  A call that answers success has written exactly one completed record, and has removed
  the Location Record it found (unless the removal itself fails, which is ignored).
\<close>

lemma successful_call_records_and_evicts:
  assumes resp: "fst (confirmDonation e d dn rq s) = Success i n g t"
  shows "\<exists>h l. histories (snd (confirmDonation e d dn rq s)) = histories s @ [h]
            \<and> h_status h = ''completed'' \<and> h_id h = i
            \<and> find (\<lambda>l. l_donorId l = Some d) (locations s) = Some l
            \<and> locations (snd (confirmDonation e d dn rq s))
               = (if e_fails e LocationRefind \<or> e_fails e LocationDeleteOne then locations s
                  else remove_first (\<lambda>x. l_id x = l_id l) (locations s))"
proof (cases "resolve e d rq s")
  case (Return r s1)
  from resolve_Return[OF Return] resp Return show ?thesis
    by (auto simp: confirmDonation_resolved)
next
  case (Throw s1)
  with resp show ?thesis by (simp add: confirmDonation_resolved)
next
  case (Next x s4)
  obtain l dr b where x: "x = (l, dr, b)" by (cases x) auto
  note res = Next[unfolded x]
  from resolve_Next[OF res] have h4: "histories s4 = histories s" and l4: "locations s4 = locations s"
    and fl: "find (\<lambda>l. l_donorId l = Some d) (locations s) = Some l"
    by (auto simp: acquire_simps)
  have cd: "confirmDonation e d dn rq s = respond (commit e d dn (l, dr, b) s4)"
    using res by (simp add: confirmDonation_resolved)
  from resp obtain h s' where c: "commit e d dn (l, dr, b) s4 = Next h s'"
    and s': "snd (confirmDonation e d dn rq s) = s'" and hi: "h_id h = i"
    unfolding cd
    by (cases "commit e d dn (l, dr, b) s4") (auto simp: respond_def dest: commit_lock_Return)
  from commit_Next[OF c] obtain s5 s6 s7 where
    h: "createHistory e d dn l dr b s4 = Next h s5"
    and u: "updateDonor e d dr s5 = Next () s6"
    and q: "updateRequest e d l b s6 = Next () s7"
    and r: "s' = removeFromMap e d s7" by blast
  from createHistory_Next[OF h] updateDonor_Next[OF u] updateRequest_Next[OF q]
  have "histories s7 = histories s4 @ [h]" "h_status h = ''completed''" "locations s7 = locations s4"
    by simp_all
  with h4 l4 s' fl hi show ?thesis
    by (auto simp: r removeFromMap_def)
qed

text \<open>
  Claim C2 asks that a failed reservation writes nothing. The handler creates the
  completed history record before it attempts the reservation: against a request that is
  already fulfilled the call below answers ReservationConflict, yet the history then holds
  a completed record for the donor (the request itself is untouched), and a retry for the
  same donor answers AlreadyDonated.
\<close>

theorem history_written_before_reservation:
  "fst (confirmDonation env0 ''D1'' None None dbClosed) = ReservationConflict
   \<and> histories dbClosed = []
   \<and> map (\<lambda>h. (h_donorId h, h_bloodRequestId h, h_status h))
        (histories (snd (confirmDonation env0 ''D1'' None None dbClosed)))
      = [(''D1'', ''64a000000000000000000001'', ''completed'')]
   \<and> requests (snd (confirmDonation env0 ''D1'' None None dbClosed)) = requests dbClosed
   \<and> fst (confirmDonation env0 ''D1'' None None (snd (confirmDonation env0 ''D1'' None None dbClosed)))
      = AlreadyDonated"
  by code_simp

section \<open>The location lookup\<close>

text \<open>
  Claim C6, as the code has it. For a non-empty donor id that is not in the guard set and
  has no completed donation, and when the three lookups themselves do not fail, the call
  answers DonorNotFound exactly when the locations collection holds no record with that
  donor id, whatever the age of the record.
\<close>

theorem donorNotFound_iff_no_location:
  assumes d: "d \<noteq> []" "d \<notin> processingLock s"
    and fresh: "\<not> (\<exists>h \<in> set (histories s). h_donorId h = d \<and> h_status h = ''completed'')"
    and ok: "\<not> e_fails e HistoryFindOne" "\<not> e_fails e LocationFindOne"
            "\<not> e_fails e LocationDirectFindOne"
  shows "fst (confirmDonation e d dn rq s) = DonorNotFound
         \<longleftrightarrow> \<not> (\<exists>l \<in> set (locations s). l_donorId l = Some d)"
proof (cases "resolve e d rq s")
  case (Return r s1)
  from resolve_Return[OF Return] d fresh
  have "r = DonorNotFound" "find (\<lambda>l. l_donorId l = Some d) (locations s) = None" by auto
  then show ?thesis
    using Return by (simp add: confirmDonation_resolved find_None_iff2)
next
  case (Throw s1)
  from resolve_Throw_located[OF Throw] ok
  have "find (\<lambda>l. l_donorId l = Some d) (locations s) \<noteq> None" by simp
  then show ?thesis
    using Throw by (auto simp: confirmDonation_resolved find_None_iff2)
next
  case (Next x s4)
  obtain l dr b where x: "x = (l, dr, b)" by (cases x) auto
  from resolve_Next[OF Next[unfolded x]]
  have "find (\<lambda>l. l_donorId l = Some d) (locations s) = Some l" by simp
  then have "\<exists>l \<in> set (locations s). l_donorId l = Some d"
    by (auto dest: find_Some_mem)
  then show ?thesis
    using Next respond_not_DonorNotFound[of e d dn l dr b s4]
    by (simp add: confirmDonation_resolved x)
qed

theorem donorNotFound_iff_no_location_witness:
  "fst (confirmDonation env0 ''D2'' None None db0) = DonorNotFound
   \<and> fst (confirmDonation env0 ''D1'' None None db0) \<noteq> DonorNotFound"
proof -
  have a: "fst (confirmDonation env0 ''D2'' None None db0) = DonorNotFound
        \<longleftrightarrow> \<not> (\<exists>l \<in> set (locations db0). l_donorId l = Some ''D2'')"
    by (rule donorNotFound_iff_no_location) (simp_all add: db0_def env0_def)
  have b: "fst (confirmDonation env0 ''D1'' None None db0) = DonorNotFound
        \<longleftrightarrow> \<not> (\<exists>l \<in> set (locations db0). l_donorId l = Some ''D1'')"
    by (rule donorNotFound_iff_no_location) (simp_all add: db0_def env0_def)
  show ?thesis
    using a b by (simp add: db0_def locD1_def loc0_def)
qed

text \<open>
  Claim C6 as stated fails for a stale record: the only record of the donor is older than
  the one-hour window (the recency filter drops it), and the call still goes through.
\<close>

theorem stale_location_is_accepted:
  "filterRecentLocations (e_now env0)
      (filter (\<lambda>l. l_donorId l = Some ''D1'') (locations dbStale)) None = []
   \<and> histories dbStale = []
   \<and> fst (confirmDonation env0 ''D1'' None None dbStale)
      = Success ''64c0000000000000000000ff'' (js ''Asha'') (Some ''Unknown'') 10000000"
  by code_simp


section \<open>Resolution of the target request\<close>

text \<open>
  Claim C7, as the code has it. The id looked up is the explicitly supplied one when one
  is supplied, and the one carried on the Location Record only when none is supplied.
  When that lookup finds a request, it is the target. Otherwise the target is the
  most recently created active request of the resolved donor's blood group, when the
  donor has a blood group and such a request exists. Otherwise a new active request is
  stored and becomes the target: generated hospital id, quantity 1, no confirmed unit,
  deadline 24 hours after the call. (The lookups and the insert are taken not to fail.)
\<close>

theorem request_resolution_order:
  assumes ok: "\<not> e_fails e RequestFindById" "\<not> e_fails e RequestFindOne" "\<not> e_fails e RequestCreate"
    and fresh: "e_newRequestId e \<notin> r_id ` set (requests s)"
    and aid: "actualRequestId = (if truthy rq then rq else l_requestId l)"
    and byId: "byId = (case actualRequestId of
                         None \<Rightarrow> None
                       | Some k \<Rightarrow> if k = [] then None else find (\<lambda>r. r_id r = k) (requests s))"
    and byGroup: "byGroup = (case donorBloodGroup dr of
                         None \<Rightarrow> None
                       | Some g \<Rightarrow> if g = [] then None
                                  else latest_by r_createdAt
                                         (filter (\<lambda>r. r_bloodGroup r = g \<and> r_status r = ''active'') (requests s)))"
  shows "resolveRequest e rq l dr s =
           (case byId of
              Some r \<Rightarrow> Next r s
            | None \<Rightarrow>
                (case byGroup of
                   Some r \<Rightarrow> Next r s
                 | None \<Rightarrow> Next (newBloodRequest e dr)
                             (s\<lparr>requests := requests s @ [newBloodRequest e dr]\<rparr>)))
     \<and> (\<forall>r. byGroup = Some r \<longrightarrow>
            r \<in> set (requests s) \<and> r_status r = ''active'' \<and> Some (r_bloodGroup r) = donorBloodGroup dr
            \<and> (\<forall>r' \<in> set (requests s).
                  r_status r' = ''active'' \<and> Some (r_bloodGroup r') = donorBloodGroup dr
                  \<longrightarrow> r_createdAt r' \<le> r_createdAt r))
     \<and> (byGroup = None \<longrightarrow> \<not> truthy (donorBloodGroup dr)
            \<or> \<not> (\<exists>r \<in> set (requests s). r_status r = ''active'' \<and> Some (r_bloodGroup r) = donorBloodGroup dr))
     \<and> r_status (newBloodRequest e dr) = ''active'' \<and> r_quantity (newBloodRequest e dr) = 1
     \<and> r_confirmedUnits (newBloodRequest e dr) = 0
     \<and> r_hospitalId (newBloodRequest e dr) = e_newHospitalId e
     \<and> r_requiredBy (newBloodRequest e dr) = Some (e_now e + 24 * 60 * 60 * 1000)"
proof -
  have main: "resolveRequest e rq l dr s =
           (case byId of
              Some r \<Rightarrow> Next r s
            | None \<Rightarrow>
                (case byGroup of
                   Some r \<Rightarrow> Next r s
                 | None \<Rightarrow> Next (newBloodRequest e dr)
                             (s\<lparr>requests := requests s @ [newBloodRequest e dr]\<rparr>)))"
    using ok fresh
    by (auto simp: resolveRequest_def andThen_def Let_def orElse_def aid byId byGroup
             split: option.splits)
  have grp: "\<forall>r. byGroup = Some r \<longrightarrow>
            r \<in> set (requests s) \<and> r_status r = ''active'' \<and> Some (r_bloodGroup r) = donorBloodGroup dr
            \<and> (\<forall>r' \<in> set (requests s).
                  r_status r' = ''active'' \<and> Some (r_bloodGroup r') = donorBloodGroup dr
                  \<longrightarrow> r_createdAt r' \<le> r_createdAt r)"
    by (auto simp: byGroup split: option.splits if_splits dest!: latest_by_Some)
  have none: "byGroup = None \<longrightarrow> \<not> truthy (donorBloodGroup dr)
            \<or> \<not> (\<exists>r \<in> set (requests s). r_status r = ''active'' \<and> Some (r_bloodGroup r) = donorBloodGroup dr)"
    by (auto simp: byGroup truthy_def latest_by_None filter_empty_conv split: option.splits if_splits)
  show ?thesis
    using main grp none by (simp add: newBloodRequest_simps)
qed

theorem request_resolution_order_witness:
  "resolveRequest env0 None locD1 None db0 = Next req1 db0
   \<and> resolveRequest env0 None (locD1\<lparr>l_requestId := None\<rparr>) (Some donorAsha) db0 = Next req1 db0
   \<and> resolveRequest env0 None (locD1\<lparr>l_requestId := None\<rparr>) None db0
      = Next (newBloodRequest env0 None) (db0\<lparr>requests := requests db0 @ [newBloodRequest env0 None]\<rparr>)"
proof -
  have e: "\<not> e_fails env0 RequestFindById" "\<not> e_fails env0 RequestFindOne"
    "\<not> e_fails env0 RequestCreate" "e_newRequestId env0 \<notin> r_id ` set (requests db0)"
    by (simp_all add: env0_def db0_def req1_def)
  note t = request_resolution_order[OF e refl refl refl]
  show ?thesis
    using t[of None locD1 None] t[of None "locD1\<lparr>l_requestId := None\<rparr>" "Some donorAsha"]
      t[of None "locD1\<lparr>l_requestId := None\<rparr>" None]
    by (simp add: truthy_def locD1_def loc0_def db0_def req1_def donorAsha_def donorBloodGroup_def)
qed

text \<open>
  Claim C7 as stated fails when an explicit id is supplied that matches no request: the
  request named on the Location Record exists, and the handler does not fall back to it
  but creates a new request.
\<close>

theorem location_request_skipped_when_explicit_id_unknown:
  "find (\<lambda>r. r_id r = ''64a000000000000000000009'') (requests db0) = None
   \<and> l_requestId locD1 = Some ''64a000000000000000000001''
   \<and> find (\<lambda>r. r_id r = ''64a000000000000000000001'') (requests db0) = Some req1
   \<and> resolveRequest env0 (Some ''64a000000000000000000009'') locD1 None db0
      = Next (newBloodRequest env0 None) (db0\<lparr>requests := [req1, newBloodRequest env0 None]\<rparr>)
   \<and> newBloodRequest env0 None \<noteq> req1"
  by (simp add: resolveRequest_def andThen_def Let_def orElse_def truthy_def env0_def db0_def
        locD1_def loc0_def req1_def donorBloodGroup_def newBloodRequest_def orDefault_def)


section \<open>The donor profile on the failure paths\<close>

text \<open>
  Claim C10. When a call has resolved a registered donor and then answers RequestExpired
  or ReservationConflict, the stored donor document with the resolved donor's id has its
  lastDonationDate set to the time of the call; its other fields are as before.
\<close>

theorem lastDonationDate_set_before_reservation:
  assumes res: "resolve e d rq s = Next (l, Some x, b) s4"
    and resp: "fst (confirmDonation e d dn rq s) = RequestExpired
               \<or> fst (confirmDonation e d dn rq s) = ReservationConflict"
  shows "\<exists>x0. find (\<lambda>y. d_id y = d_id x) (donors s) = Some x0
          \<and> find (\<lambda>y. d_id y = d_id x) (donors (snd (confirmDonation e d dn rq s)))
              = Some (x0\<lparr>d_lastDonationDate := Some (e_now e)\<rparr>)"
proof -
  from resolve_Next[OF res] have xin: "x \<in> set (donors s)" and d4: "donors s4 = donors s"
    by (auto simp: acquire_simps)
  from xin obtain x0 where x0: "find (\<lambda>y. d_id y = d_id x) (donors s) = Some x0"
    by (cases "find (\<lambda>y. d_id y = d_id x) (donors s)") (auto simp: find_None_iff2)
  have cd: "confirmDonation e d dn rq s = respond (commit e d dn (l, Some x, b) s4)"
    using res by (simp add: confirmDonation_resolved)
  from resp obtain r s' where c: "commit e d dn (l, Some x, b) s4 = Return r s'"
    and s': "snd (confirmDonation e d dn rq s) = s'"
    unfolding cd using respond_Return_iff by blast
  from commit_Return[OF c] obtain h s5 s6 where
    h: "createHistory e d dn l (Some x) b s4 = Next h s5"
    and u: "updateDonor e d (Some x) s5 = Next () s6"
    and q: "updateRequest e d l b s6 = Return r s'" by blast
  from createHistory_Next[OF h] have d5: "donors s5 = donors s4" by simp
  from updateDonor_Next[OF u] have s6: "s6 = setLastDonationDate e x s5" by simp
  from updateRequest_Return[OF q] have "donors s' = donors s6" by simp
  then have "donors s' = update_first (\<lambda>y. d_id y = d_id x)
                (\<lambda>y. y\<lparr>d_lastDonationDate := Some (e_now e)\<rparr>) (donors s)"
    by (simp add: s6 setLastDonationDate_def d5 d4)
  then have "find (\<lambda>y. d_id y = d_id x) (donors s') = Some (x0\<lparr>d_lastDonationDate := Some (e_now e)\<rparr>)"
    by (simp add: find_update_first x0)
  with x0 s' show ?thesis by simp
qed

theorem lastDonationDate_set_before_reservation_witness:
  "d_lastDonationDate donorAsha = None
   \<and> fst (confirmDonation env0 ''D1'' None None dbClosedAsha) = ReservationConflict
   \<and> find (\<lambda>y. d_id y = d_id donorAsha) (donors (snd (confirmDonation env0 ''D1'' None None dbClosedAsha)))
      = Some (donorAsha\<lparr>d_lastDonationDate := Some 10000000\<rparr>)"
proof -
  have res: "resolve env0 ''D1'' None dbClosedAsha
      = Next (locD1, Some donorAsha, req1\<lparr> r_status := ''fulfilled'', r_confirmedUnits := 1,
                                         r_activeTokens := [] \<rparr>) (acquire ''D1'' dbClosedAsha)"
    by code_simp
  have resp: "fst (confirmDonation env0 ''D1'' None None dbClosedAsha) = ReservationConflict"
    by code_simp
  have f: "find (\<lambda>y. d_id y = d_id donorAsha) (donors dbClosedAsha) = Some donorAsha"
    by (simp add: dbClosedAsha_def dbClosed_def db0_def)
  from lastDonationDate_set_before_reservation[OF res disjI2, OF resp]
  show ?thesis
    using resp f by (simp add: env0_def donorAsha_def)
qed


section \<open>Expiry of the resolved request\<close>

text \<open>
  Claim C5. When the request a call resolves is still active and its deadline lies
  before the time of the call, the call answers RequestExpired, and the stored requests
  are as before except that the resolved one now has status expired and no active
  tokens; its confirmedUnits, like every other field and every other request, is
  unchanged, and a read of the request by id returns exactly that document. (Request ids
  are unique in the store, and the writes before and of the expiry do not fail.)
\<close>

theorem expired_request_is_closed:
  assumes res: "resolve e d rq s = Next (l, dr, b) s4"
    and dl: "r_status b = ''active''" "r_requiredBy b = Some deadline" "deadline < e_now e"
    and uniq: "distinct (map r_id (requests s))"
    and ok: "\<not> e_fails e HistoryCreate" "e_newDonationId e \<notin> h_id ` set (histories s)"
            "\<not> e_fails e DonorSave" "\<not> e_fails e RequestExpireSave"
  shows "fst (confirmDonation e d dn rq s) = RequestExpired
     \<and> b \<in> set (requests s)
     \<and> requests (snd (confirmDonation e d dn rq s))
        = map (\<lambda>r. if r = b then r\<lparr>r_status := ''expired'', r_activeTokens := []\<rparr> else r) (requests s)
     \<and> find (\<lambda>r. r_id r = r_id b) (requests (snd (confirmDonation e d dn rq s)))
        = Some (b\<lparr>r_status := ''expired'', r_activeTokens := []\<rparr>)"
proof -
  have passed: "deadlinePassed e b" using dl by (simp add: deadlinePassed_def)
  from resolve_Next[OF res] passed deadlinePassed_new
  have s4: "s4 = acquire d s" and bin: "b \<in> set (requests s)" by auto
  have ok4: "e_newDonationId e \<notin> h_id ` set (histories s4)"
    using ok(2) by (simp add: s4 acquire_simps)
  from commit_expired[OF passed ok(1) ok4 ok(3) ok(4), of d dn l dr]
  obtain s' where c: "commit e d dn (l, dr, b) s4 = Return RequestExpired s'"
    and r': "requests s' = update_first (\<lambda>r. r_id r = r_id b) markExpired (requests s)"
    by (auto simp: s4 acquire_simps)
  have cd: "confirmDonation e d dn rq s = (RequestExpired, s')"
    using res c by (simp add: confirmDonation_resolved respond_def)
  have "requests s' = map (\<lambda>r. if r_id r = r_id b then markExpired r else r) (requests s)"
    unfolding r' by (rule update_first_unique[OF uniq]) simp
  also have "\<dots> = map (\<lambda>r. if r = b then markExpired r else r) (requests s)"
    by (rule map_by_unique_id[OF uniq bin])
  finally have m: "requests s'
      = map (\<lambda>r. if r = b then r\<lparr>r_status := ''expired'', r_activeTokens := []\<rparr> else r) (requests s)"
    by (simp add: markExpired_def)
  from bin have "find (\<lambda>r. r_id r = r_id b) (requests s) \<noteq> None"
    by (auto simp: find_None_iff2)
  then obtain b0 where b0: "find (\<lambda>r. r_id r = r_id b) (requests s) = Some b0" by auto
  then have "b0 \<in> set (requests s)" "r_id b0 = r_id b" by (auto dest: find_Some_mem)
  with uniq bin have "b0 = b" by (auto simp: distinct_map inj_on_def)
  with b0 have f: "find (\<lambda>r. r_id r = r_id b) (requests s') = Some (markExpired b)"
    unfolding r' by (simp add: find_update_first markExpired_simps)
  show ?thesis
    using m f bin by (simp add: cd markExpired_def)
qed

theorem expired_request_is_closed_witness:
  "fst (confirmDonation env0 ''D1'' None None dbPast) = RequestExpired
   \<and> requests (snd (confirmDonation env0 ''D1'' None None dbPast))
      = [req1\<lparr> r_status := ''expired'', r_requiredBy := Some 9000000, r_activeTokens := [] \<rparr>]
   \<and> r_confirmedUnits req1 = 0"
proof -
  have res: "resolve env0 ''D1'' None dbPast
      = Next (locD1, None, req1\<lparr> r_requiredBy := Some 9000000 \<rparr>) (acquire ''D1'' dbPast)"
    by code_simp
  have h: "r_status (req1\<lparr> r_requiredBy := Some 9000000 \<rparr>) = ''active''"
    "r_requiredBy (req1\<lparr> r_requiredBy := Some 9000000 \<rparr>) = Some 9000000"
    "9000000 < e_now env0" "distinct (map r_id (requests dbPast))"
    "\<not> e_fails env0 HistoryCreate" "e_newDonationId env0 \<notin> h_id ` set (histories dbPast)"
    "\<not> e_fails env0 DonorSave" "\<not> e_fails env0 RequestExpireSave"
    by (simp_all add: req1_def env0_def dbPast_def db0_def)
  from expired_request_is_closed[OF res h, of None]
  show ?thesis
    by (simp add: dbPast_def db0_def req1_def)
qed


section \<open>The counter of confirmed units\<close>

text \<open>
  Claim C1, as the code has it. Over every sequence of calls, if every stored request
  has confirmedUnits at most quantity at the start then so it is at the end, and
  likewise for confirmedUnits at least 0. In one call the quantity and id of a stored
  request do not change, and its confirmedUnits either stays or grows by exactly one;
  it grows only when the call resolved a request with the same id, the stored request
  is active with confirmedUnits below quantity, and its activeTokens contain the token
  of the Location Record whenever that token is present, non-empty and does not start
  with DIRECT_.
\<close>

theorem confirmedUnits_within_quantity:
  "((\<forall>r \<in> set (requests s). r_confirmedUnits r \<le> r_quantity r)
       \<longrightarrow> (\<forall>r \<in> set (requests (run cs s)). r_confirmedUnits r \<le> r_quantity r))
   \<and> ((\<forall>r \<in> set (requests s). 0 \<le> r_confirmedUnits r)
       \<longrightarrow> (\<forall>r \<in> set (requests (run cs s)). 0 \<le> r_confirmedUnits r))
   \<and> (i < length (requests s) \<longrightarrow>
        i < length (requests (snd (confirmDonation e d dn rq s)))
        \<and> r_id (requests (snd (confirmDonation e d dn rq s)) ! i) = r_id (requests s ! i)
        \<and> r_quantity (requests (snd (confirmDonation e d dn rq s)) ! i) = r_quantity (requests s ! i)
        \<and> (r_confirmedUnits (requests (snd (confirmDonation e d dn rq s)) ! i)
               = r_confirmedUnits (requests s ! i)
           \<or> (r_confirmedUnits (requests (snd (confirmDonation e d dn rq s)) ! i)
                 = r_confirmedUnits (requests s ! i) + 1
               \<and> (\<exists>l dr b s4. resolve e d rq s = Next (l, dr, b) s4
                     \<and> r_id (requests s ! i) = r_id b
                     \<and> r_status (requests s ! i) = ''active''
                     \<and> r_confirmedUnits (requests s ! i) < r_quantity (requests s ! i)
                     \<and> (\<forall>t. l_token l = Some t \<and> t \<noteq> [] \<and> \<not> startsWith t ''DIRECT_''
                            \<longrightarrow> t \<in> set (r_activeTokens (requests s ! i)))))))"
proof -
  have tf: "\<And>tok r. tokenFilter tok r
      = (\<forall>t. tok = Some t \<and> t \<noteq> [] \<and> \<not> startsWith t ''DIRECT_'' \<longrightarrow> t \<in> set (r_activeTokens r))"
    by (auto simp: tokenFilter_def split: option.splits)
  have step: "i < length (requests s) \<longrightarrow>
        i < length (requests (snd (confirmDonation e d dn rq s)))
        \<and> r_id (requests (snd (confirmDonation e d dn rq s)) ! i) = r_id (requests s ! i)
        \<and> r_quantity (requests (snd (confirmDonation e d dn rq s)) ! i) = r_quantity (requests s ! i)
        \<and> (r_confirmedUnits (requests (snd (confirmDonation e d dn rq s)) ! i)
               = r_confirmedUnits (requests s ! i)
           \<or> (r_confirmedUnits (requests (snd (confirmDonation e d dn rq s)) ! i)
                 = r_confirmedUnits (requests s ! i) + 1
               \<and> (\<exists>l dr b s4. resolve e d rq s = Next (l, dr, b) s4
                     \<and> r_id (requests s ! i) = r_id b
                     \<and> r_status (requests s ! i) = ''active''
                     \<and> r_confirmedUnits (requests s ! i) < r_quantity (requests s ! i)
                     \<and> (\<forall>t. l_token l = Some t \<and> t \<noteq> [] \<and> \<not> startsWith t ''DIRECT_''
                            \<longrightarrow> t \<in> set (r_activeTokens (requests s ! i))))))"
    using confirmDonation_units_nth[of i s e d dn rq]
    unfolding reservable_def tf by blast
  show ?thesis
    using run_keeps_upper[of s cs] run_keeps_lower[of s cs] step by blast
qed

theorem confirmedUnits_within_quantity_witness:
  "map (\<lambda>r. (r_confirmedUnits r, r_quantity r)) (requests dbTwo) = [(0, 1)]
   \<and> map (\<lambda>r. (r_confirmedUnits r, r_quantity r)) (requests (run [call1, call2] dbTwo)) = [(1, 1)]
   \<and> list_all (\<lambda>r. 0 \<le> r_confirmedUnits r \<and> r_confirmedUnits r \<le> r_quantity r)
        (requests (run [call1, call2] dbTwo))"
proof -
  have h: "\<forall>r \<in> set (requests dbTwo). r_confirmedUnits r \<le> r_quantity r"
     "\<forall>r \<in> set (requests dbTwo). 0 \<le> r_confirmedUnits r"
    by (simp_all add: dbTwo_def db0_def req1_def)
  have a: "map (\<lambda>r. (r_confirmedUnits r, r_quantity r)) (requests dbTwo) = [(0, 1)]"
    by (simp add: dbTwo_def db0_def req1_def)
  have b: "map (\<lambda>r. (r_confirmedUnits r, r_quantity r)) (requests (run [call1, call2] dbTwo)) = [(1, 1)]"
    by code_simp
  from confirmedUnits_within_quantity[of dbTwo "[call1, call2]" 0 env0 "''D1''" None None] h
  have "\<forall>r \<in> set (requests (run [call1, call2] dbTwo)).
          0 \<le> r_confirmedUnits r \<and> r_confirmedUnits r \<le> r_quantity r"
    by blast
  then show ?thesis
    using a b by (simp add: list_all_iff)
qed

text \<open>
  Claim C1 as stated requires the token to be among the active tokens unless it carries
  the DIRECT_ prefix. A Location Record with no token at all also skips the check: the
  request below has no active token, and the call reserves its unit.
\<close>

theorem reservation_without_token:
  "l_token (hd (locations dbNoToken)) = None
   \<and> map r_activeTokens (requests dbNoToken) = [[]]
   \<and> map r_confirmedUnits (requests dbNoToken) = [0]
   \<and> fst (confirmDonation env0 ''D1'' None None dbNoToken)
      = Success ''64c0000000000000000000ff'' (js ''Asha'') (Some ''Unknown'') 10000000
   \<and> map r_confirmedUnits (requests (snd (confirmDonation env0 ''D1'' None None dbNoToken))) = [1]"
  by code_simp


section \<open>Closed requests\<close>

text \<open>
  Claim C3 (request ids are unique in the store). A stored request that is not active
  is left exactly as it is by every sequence of calls, so its confirmedUnits and its
  activeTokens are frozen. A call whose resolved request is not active never answers
  success, whatever token the Location Record carries: it answers ReservationConflict,
  or "Database update failed", or (after an exception in an earlier step) nothing.
  When one call changes the status of a stored request, the
  request was active, its activeTokens are now empty and it is fulfilled or expired; it
  becomes fulfilled only together with an increment that makes confirmedUnits equal to
  quantity, and the fulfilment time is then the time of the call. Conversely, when the
  call increments confirmedUnits (and the fulfilment save does not fail), the request is
  fulfilled exactly when the incremented confirmedUnits equals quantity.
\<close>

theorem closed_request_stays_closed:
  assumes uniq: "distinct (map r_id (requests s))"
    and i: "i < length (requests s)"
    and r: "r = requests s ! i"
    and r': "r' = requests (snd (confirmDonation e d dn rq s)) ! i"
  shows "(r_status r \<noteq> ''active'' \<longrightarrow>
            i < length (requests (run cs s)) \<and> requests (run cs s) ! i = r)
     \<and> (\<forall>l dr b s4. resolve e d rq s = Next (l, dr, b) s4 \<and> r_status b \<noteq> ''active'' \<longrightarrow>
            fst (confirmDonation e d dn rq s) = ReservationConflict
            \<or> fst (confirmDonation e d dn rq s) = DatabaseUpdateFailed
            \<or> fst (confirmDonation e d dn rq s) = NoResponse)
     \<and> (r_status r' \<noteq> r_status r \<longrightarrow>
            r_status r = ''active'' \<and> r_activeTokens r' = []
            \<and> (r_status r' = ''fulfilled'' \<or> r_status r' = ''expired''))
     \<and> (r_status r' = ''fulfilled'' \<and> r_status r = ''active'' \<longrightarrow>
            r_confirmedUnits r' = r_confirmedUnits r + 1 \<and> r_confirmedUnits r' = r_quantity r'
            \<and> r_fulfilledAt r' = Some (e_now e))
     \<and> (r_confirmedUnits r' = r_confirmedUnits r + 1 \<and> \<not> e_fails e RequestFulfilSave \<longrightarrow>
            (r_status r' = ''fulfilled'') = (r_confirmedUnits r' = r_quantity r'))"
proof -
  have frozen: "r_status r \<noteq> ''active'' \<longrightarrow>
            i < length (requests (run cs s)) \<and> requests (run cs s) ! i = r"
    using run_frozen[OF uniq i, of cs] r by simp
  have closed: "\<forall>l dr b s4. resolve e d rq s = Next (l, dr, b) s4 \<and> r_status b \<noteq> ''active'' \<longrightarrow>
            fst (confirmDonation e d dn rq s) = ReservationConflict
            \<or> fst (confirmDonation e d dn rq s) = DatabaseUpdateFailed
            \<or> fst (confirmDonation e d dn rq s) = NoResponse"
    using confirmDonation_closed[OF _ uniq] by blast
  have "r' = r \<or> (\<exists>l b. requestChange e l b r r')"
  proof -
    from confirmDonation_change[OF uniq, of e d rq dn] show ?thesis
    proof
      assume "(\<forall>x s4. resolve e d rq s \<noteq> Next x s4)
           \<and> requests (snd (confirmDonation e d dn rq s)) = requests s"
      then show ?thesis by (simp add: r r')
    next
      assume "\<exists>l dr b s4. resolve e d rq s = Next (l, dr, b) s4
           \<and> b \<in> set (requests s4) \<and> distinct (map r_id (requests s4))
           \<and> (requests s4 = requests s \<or> (requests s4 = requests s @ [b] \<and> b = newBloodRequest e dr))
           \<and> list_all2 (requestChange e l b) (requests s4) (requests (snd (confirmDonation e d dn rq s)))"
      then obtain l dr b s4 where res: "resolve e d rq s = Next (l, dr, b) s4"
        and len: "requests s4 = requests s \<or> requests s4 = requests s @ [b]"
        and ch: "list_all2 (requestChange e l b) (requests s4) (requests (snd (confirmDonation e d dn rq s)))"
        by blast
      from len i have i4: "i < length (requests s4)" and n4: "requests s4 ! i = requests s ! i"
        by (auto simp: nth_append)
      from list_all2_nthD[OF ch i4] n4 show ?thesis
        by (auto simp: r r')
    qed
  qed
  then have change: "r' = r
      \<or> (r_status r = ''active'' \<and> r' = markExpired r)
      \<or> (r_status r = ''active'' \<and> r_confirmedUnits r < r_quantity r \<and> r' = incConfirmed r
          \<and> (r_confirmedUnits r + 1 < r_quantity r \<or> e_fails e RequestFulfilSave))
      \<or> (r_status r = ''active'' \<and> r_confirmedUnits r < r_quantity r
          \<and> r_quantity r \<le> r_confirmedUnits r + 1 \<and> r' = markFulfilled e (incConfirmed r))"
    by (auto simp: requestChange_def deadlinePassed_def reservable_def)
  have c3: "r_status r' \<noteq> r_status r \<longrightarrow>
            r_status r = ''active'' \<and> r_activeTokens r' = []
            \<and> (r_status r' = ''fulfilled'' \<or> r_status r' = ''expired'')"
    using change by (auto simp: markExpired_simps incConfirmed_simps markFulfilled_simps)
  have c4: "r_status r' = ''fulfilled'' \<and> r_status r = ''active'' \<longrightarrow>
            r_confirmedUnits r' = r_confirmedUnits r + 1 \<and> r_confirmedUnits r' = r_quantity r'
            \<and> r_fulfilledAt r' = Some (e_now e)"
    using change by (auto simp: markExpired_simps incConfirmed_simps markFulfilled_simps)
  have c5: "r_confirmedUnits r' = r_confirmedUnits r + 1 \<and> \<not> e_fails e RequestFulfilSave \<longrightarrow>
            (r_status r' = ''fulfilled'') = (r_confirmedUnits r' = r_quantity r')"
    using change by (auto simp: markExpired_simps incConfirmed_simps markFulfilled_simps)
  show ?thesis
    using frozen closed c3 c4 c5 by blast
qed


theorem closed_request_stays_closed_witness:
  "r_status (requests dbClosed ! 0) = ''fulfilled''
   \<and> requests (run [call1, call2] dbClosed) ! 0 = requests dbClosed ! 0
   \<and> fst (confirmDonation env0 ''D1'' None None dbClosed) = ReservationConflict
   \<and> r_status (requests db0 ! 0) = ''active''
   \<and> r_status (requests (snd (confirmDonation env0 ''D1'' None None db0)) ! 0) = ''fulfilled''
   \<and> r_activeTokens (requests (snd (confirmDonation env0 ''D1'' None None db0)) ! 0) = []
   \<and> r_confirmedUnits (requests (snd (confirmDonation env0 ''D1'' None None db0)) ! 0)
      = r_quantity (requests (snd (confirmDonation env0 ''D1'' None None db0)) ! 0)"
proof -
  have h: "distinct (map r_id (requests dbClosed))" "0 < length (requests dbClosed)"
    by (simp_all add: dbClosed_def db0_def)
  have h0: "distinct (map r_id (requests db0))" "0 < length (requests db0)"
    by (simp_all add: db0_def)
  note a = closed_request_stays_closed[where s = dbClosed and i = 0 and cs = "[call1, call2]"
      and e = env0 and d = "''D1''" and dn = None and rq = None, OF h refl refl]
  note b = closed_request_stays_closed[where s = db0 and i = 0 and cs = "[]"
      and e = env0 and d = "''D1''" and dn = None and rq = None, OF h0 refl refl]
  have c: "fst (confirmDonation env0 ''D1'' None None dbClosed) = ReservationConflict"
    by code_simp
  have st: "r_status (requests (snd (confirmDonation env0 ''D1'' None None db0)) ! 0) = ''fulfilled''"
    by code_simp
  have s0: "r_status (requests dbClosed ! 0) = ''fulfilled''" "r_status (requests db0 ! 0) = ''active''"
    by (simp_all add: dbClosed_def db0_def req1_def)
  from a s0 have frozen: "requests (run [call1, call2] dbClosed) ! 0 = requests dbClosed ! 0"
    by simp
  from b st s0 have closing:
    "r_activeTokens (requests (snd (confirmDonation env0 ''D1'' None None db0)) ! 0) = []"
    "r_confirmedUnits (requests (snd (confirmDonation env0 ''D1'' None None db0)) ! 0)
      = r_quantity (requests (snd (confirmDonation env0 ''D1'' None None db0)) ! 0)"
    by simp_all
  show ?thesis
    using s0 frozen c st closing by simp
qed


end
